theory Spec2Isabelle
  imports Complex_Main "HOL-Library.Log_Nat"
begin

unbundle bit_operations_syntax

section \<open>The colour utilities of \<^verbatim>\<open>assets/js/app.js\<close>\<close>

text \<open>
  A JavaScript number is a binary64 floating-point number. The colour conversions
  \<^verbatim>\<open>hexToHsl\<close> and \<^verbatim>\<open>hslToHex\<close>, the variant generator and \<^verbatim>\<open>randomInRange\<close> are
  modelled with that arithmetic: a number is the rational it denotes, and each arithmetic
  operation of the source is the exact operation followed by \<open>rnd\<close>, the rounding to the
  nearest binary64 number, a tie going to the even significand. Overflow to infinity and
  \<^verbatim>\<open>NaN\<close> are not modelled; no operation of these functions reaches them on the inputs
  considered. \<^verbatim>\<open>Math.round\<close>, \<^verbatim>\<open>Math.floor\<close>, \<^verbatim>\<open>Math.min\<close>, \<^verbatim>\<open>Math.max\<close>, the
  comparisons and the remainder \<^verbatim>\<open>%\<close> are exact on binary64 numbers.
  The luminance needs the power \<^verbatim>\<open>2.4\<close>, which the language leaves to the
  implementation: it is modelled over \<^typ>\<open>real\<close>, without rounding.
  Integers that the code keeps in numbers (channel bytes, degrees, percents) are \<^typ>\<open>int\<close>.
  Strings are \<^typ>\<open>string\<close>; only the characters of the ASCII range matter to any function
  below.
\<close>

subsection \<open>Numbers and strings of the language\<close>

definition Math_round :: "'a::floor_ceiling \<Rightarrow> int" where
  \<comment> \<open>\<^verbatim>\<open>Math.round\<close>: the nearest integer, a tie going up; exact on every number.\<close>
  "Math_round x = \<lfloor>x + 1 / 2\<rfloor>"

definition expo :: "rat \<Rightarrow> int" where
  \<comment> \<open>The binary exponent of a number other than zero: \<open>2 ^ expo x \<le> \<bar>x\<bar> < 2 ^ (expo x + 1)\<close>.\<close>
  "expo x =
     (case quotient_of \<bar>x\<bar> of
        (p, q) \<Rightarrow>
          let e0 = bitlen p - bitlen q in if 2 powi e0 \<le> \<bar>x\<bar> then e0 else e0 - 1)"

definition rhe :: "rat \<Rightarrow> int" where
  \<comment> \<open>The nearest integer, a tie going to the even one.\<close>
  "rhe y =
     (let f = \<lfloor>y\<rfloor>; r = y - of_int f in
      if r < 1 / 2 then f else if 1 / 2 < r then f + 1 else if even f then f else f + 1)"

definition rnd :: "rat \<Rightarrow> rat" where
  \<comment> \<open>The nearest binary64 number: 53 significant bits, the exponent not below \<open>-1022\<close>
      (below it the spacing of the subnormal numbers, \<open>2 ^ -1074\<close>, stays).\<close>
  "rnd x =
     (if x = 0 then 0
      else let u = 2 powi (max (expo x) (- 1022) - 52) in u * of_int (rhe (x / u)))"

definition js_rem :: "rat \<Rightarrow> rat \<Rightarrow> rat" where
  \<comment> \<open>The operator \<^verbatim>\<open>%\<close>: the remainder of the division truncated towards zero, so
      the result has the sign of \<open>x\<close>. On binary64 numbers the result is exact.\<close>
  "js_rem x y =
     (let q = x / y; t = (if 0 \<le> q then \<lfloor>q\<rfloor> else \<lceil>q\<rceil>) in x - y * of_int t)"

definition hexDigit :: "char \<Rightarrow> nat option" where
  \<comment> \<open>The value of a digit for \<^verbatim>\<open>parseInt(_, 16)\<close>, which takes both cases.\<close>
  "hexDigit c =
     (let n = (of_char c :: nat) in
      if 48 \<le> n \<and> n \<le> 57 then Some (n - 48)
      else if 97 \<le> n \<and> n \<le> 102 then Some (n - 87)
      else if 65 \<le> n \<and> n \<le> 70 then Some (n - 55)
      else None)"

fun parseDigits :: "nat option \<Rightarrow> string \<Rightarrow> nat option" where
  "parseDigits acc [] = acc"
| "parseDigits acc (c # cs) =
     (case hexDigit c of
        None \<Rightarrow> acc
      | Some d \<Rightarrow> parseDigits (Some (16 * (case acc of None \<Rightarrow> 0 | Some a \<Rightarrow> a) + d)) cs)"

definition parseInt16 :: "string \<Rightarrow> nat option" where
  \<comment> \<open>\<^verbatim>\<open>parseInt(s, 16)\<close> on a string that starts with its digits: the longest prefix of
      hexadecimal digits is read, and \<open>None\<close> is \<^verbatim>\<open>NaN\<close> (no digit at all). Leading white
      space, a sign and a \<^verbatim>\<open>0x\<close> prefix are not modelled, nor the loss of precision beyond
      \<open>2^53\<close>; no string that passes the shape test of \<^verbatim>\<open>updateUI\<close> has any of them.\<close>
  "parseInt16 s = parseDigits None s"

definition hexChar :: "nat \<Rightarrow> char" where
  \<comment> \<open>The digit of \<^verbatim>\<open>toString(16)\<close> for a value below sixteen.\<close>
  "hexChar d = ''0123456789abcdef'' ! d"

fun natToString16 :: "nat \<Rightarrow> string" where
  "natToString16 n =
     (if n < 16 then [hexChar n] else natToString16 (n div 16) @ [hexChar (n mod 16)])"

declare natToString16.simps [simp del]

definition toString16 :: "int \<Rightarrow> string" where
  \<comment> \<open>\<^verbatim>\<open>Number.prototype.toString(16)\<close> on an integer: lower-case digits, a minus sign
      before the digits of a negative one.\<close>
  "toString16 i = (if i < 0 then CHR ''-'' # natToString16 (nat (- i)) else natToString16 (nat i))"

definition padStart :: "nat \<Rightarrow> char \<Rightarrow> string \<Rightarrow> string" where
  "padStart n c s = replicate (n - length s) c @ s"

definition lowerChar :: "char \<Rightarrow> char" where
  "lowerChar c =
     (let n = (of_char c :: nat) in if 65 \<le> n \<and> n \<le> 90 then char_of (n + 32) else c)"

definition toLowerCase :: "string \<Rightarrow> string" where
  \<comment> \<open>\<^verbatim>\<open>String.prototype.toLowerCase\<close> on the ASCII letters. No character outside ASCII
      has a lower-case form among \<^verbatim>\<open>#\<close>, the digits and \<^verbatim>\<open>a\<close> to \<^verbatim>\<open>f\<close>, so the shape
      test below gives the same answer as with the full Unicode mapping.\<close>
  "toLowerCase s = map lowerChar s"

definition isLowerHexDigit :: "char \<Rightarrow> bool" where
  \<comment> \<open>The character class \<^verbatim>\<open>[0-9a-f]\<close>.\<close>
  "isLowerHexDigit c =
     (let n = (of_char c :: nat) in (48 \<le> n \<and> n \<le> 57) \<or> (97 \<le> n \<and> n \<le> 102))"

definition isHexShape :: "string \<Rightarrow> bool" where
  \<comment> \<open>\<^verbatim>\<open>/^#[0-9a-f]{6}$/.test(s)\<close>\<close>
  "isHexShape s =
     (case s of
        [] \<Rightarrow> False
      | c # cs \<Rightarrow> c = CHR ''#'' \<and> length cs = 6 \<and> list_all isLowerHexDigit cs)"

subsection \<open>Colour utilities\<close>

record rgb =
  rgb_r :: int
  rgb_g :: int
  rgb_b :: int

record hsl =
  hsl_h :: int
  hsl_s :: int
  hsl_l :: int

definition hexToRgb :: "string \<Rightarrow> rgb" where
  \<comment> \<open>\<^verbatim>\<open>NaN >> 16\<close> and \<^verbatim>\<open>NaN & 255\<close> are \<open>0\<close>.\<close>
  "hexToRgb hex =
     (let bigint = (case parseInt16 (drop 1 hex) of None \<Rightarrow> 0 | Some n \<Rightarrow> int n) in
      \<lparr>rgb_r = drop_bit 16 bigint AND 255,
       rgb_g = drop_bit 8 bigint AND 255,
       rgb_b = bigint AND 255\<rparr>)"

definition channelLinear :: "real \<Rightarrow> real" where
  \<comment> \<open>The function mapped over the channels in \<^verbatim>\<open>getLuminance\<close>.\<close>
  "channelLinear v0 =
     (let v = v0 / 255 in
      if v \<le> 0.03928 then v / 12.92 else ((v + 0.055) / 1.055) powr 2.4)"

definition getLuminance :: "rgb \<Rightarrow> real" where
  "getLuminance c =
     (let a = map channelLinear [of_int (rgb_r c), of_int (rgb_g c), of_int (rgb_b c)] in
      0.2126 * a ! 0 + 0.7152 * a ! 1 + 0.0722 * a ! 2)"

definition getContrastRatio :: "string \<Rightarrow> string \<Rightarrow> real" where
  "getContrastRatio hex1 hex2 =
     (let l1 = getLuminance (hexToRgb hex1);
          l2 = getLuminance (hexToRgb hex2);
          ratio = (max l1 l2 + 0.05) / (min l1 l2 + 0.05) in
      of_int (Math_round (ratio * 10)) / 10)"

definition wave :: "rat \<Rightarrow> rat" where
  \<comment> \<open>\<^verbatim>\<open>Math.max(Math.min(k - 3, 9 - k, 1), -1)\<close>\<close>
  "wave k = max (min (rnd (k - 3)) (min (rnd (9 - k)) 1)) (- 1)"

definition hslColor :: "rat \<Rightarrow> rat \<Rightarrow> rat \<Rightarrow> rat \<Rightarrow> rat" where
  \<comment> \<open>The value \<^verbatim>\<open>color\<close> of the inner function \<^verbatim>\<open>f\<close> of \<^verbatim>\<open>hslToHex\<close>, for the hue
      \<open>h\<close>, the lightness \<open>l\<close> (already divided by 100) and the amplitude \<open>a\<close>.\<close>
  "hslColor h l a n =
     (let k = js_rem (rnd (n + rnd (h / 30))) 12 in rnd (l - rnd (a * wave k)))"

definition hslRawByte :: "rat \<Rightarrow> rat \<Rightarrow> rat \<Rightarrow> rat \<Rightarrow> rat" where
  \<comment> \<open>\<^verbatim>\<open>255 * color\<close> for channel \<open>n\<close> of \<^verbatim>\<open>hslToHex(h, s, l0)\<close>.\<close>
  "hslRawByte h s l0 n =
     (let l = rnd (l0 / 100); a = rnd (rnd (s * min l (rnd (1 - l))) / 100)
      in rnd (255 * hslColor h l a n))"

definition hslByte :: "rat \<Rightarrow> rat \<Rightarrow> rat \<Rightarrow> rat \<Rightarrow> int" where
  \<comment> \<open>\<^verbatim>\<open>Math.round(255 * color)\<close>\<close>
  "hslByte h s l0 n = Math_round (hslRawByte h s l0 n)"

definition hslToHex :: "rat \<Rightarrow> rat \<Rightarrow> rat \<Rightarrow> string" where
  "hslToHex h s l0 =
     (let f = (\<lambda>n. padStart 2 CHR ''0'' (toString16 (hslByte h s l0 n))) in
      CHR ''#'' # f 0 @ f 8 @ f 4)"

definition rgbToHslFrac :: "rgb \<Rightarrow> rat \<times> rat \<times> rat" where
  \<comment> \<open>The body of \<^verbatim>\<open>hexToHsl\<close> up to its last line: the values of \<^verbatim>\<open>h\<close>, \<^verbatim>\<open>s\<close> and
      \<^verbatim>\<open>l\<close> before they are scaled and rounded to integers.\<close>
  "rgbToHslFrac c =
     (let rr = rnd (of_int (rgb_r c) / 255); gg = rnd (of_int (rgb_g c) / 255);
          bb = rnd (of_int (rgb_b c) / 255);
          mx = max rr (max gg bb); mn = min rr (min gg bb);
          l = rnd (rnd (mx + mn) / 2) in
      if mx = mn then (0, 0, l)
      else
        let d = rnd (mx - mn);
            s = (if l > 1 / 2 then rnd (d / rnd (rnd (2 - mx) - mn)) else rnd (d / rnd (mx + mn)));
            h = (if mx = rr then rnd (rnd (rnd (gg - bb) / d) + (if gg < bb then 6 else 0))
                 else if mx = gg then rnd (rnd (rnd (bb - rr) / d) + 2)
                 else rnd (rnd (rnd (rr - gg) / d) + 4))
        in (rnd (h / 6), s, l))"

definition rgbToHslRaw :: "rgb \<Rightarrow> rat \<times> rat \<times> rat" where
  \<comment> \<open>\<^verbatim>\<open>h * 360\<close>, \<^verbatim>\<open>s * 100\<close> and \<^verbatim>\<open>l * 100\<close>, the arguments of \<^verbatim>\<open>Math.round\<close> in the
      last line of \<^verbatim>\<open>hexToHsl\<close>.\<close>
  "rgbToHslRaw c =
     (case rgbToHslFrac c of (h, s, l) \<Rightarrow> (rnd (h * 360), rnd (s * 100), rnd (l * 100)))"

definition hexToHsl :: "string \<Rightarrow> hsl" where
  "hexToHsl hex =
     (case rgbToHslRaw (hexToRgb hex) of
        (h, s, l) \<Rightarrow> \<lparr>hsl_h = Math_round h, hsl_s = Math_round s, hsl_l = Math_round l\<rparr>)"

definition clamp :: "int \<Rightarrow> int \<Rightarrow> int \<Rightarrow> int" where
  "clamp v lo hi = min (max v lo) hi"

definition randomInRange :: "rat \<Rightarrow> int \<Rightarrow> int \<Rightarrow> int" where
  \<comment> \<open>\<open>u\<close> is the value that \<^verbatim>\<open>Math.random()\<close> returns, a binary64 number in \<open>[0, 1)\<close>.\<close>
  "randomInRange u lo hi = \<lfloor>rnd (u * of_int (hi - lo + 1))\<rfloor> + lo"

definition lightShiftOf :: "rat \<Rightarrow> rat \<Rightarrow> int" where
  \<comment> \<open>\<^verbatim>\<open>Math.random() > 0.5 ? randomInRange(12, 20) : randomInRange(-20, -12)\<close>, with
      \<open>u1\<close> and \<open>u2\<close> the two values drawn, in the order of the calls.\<close>
  "lightShiftOf u1 u2 = (if u1 > 1 / 2 then randomInRange u2 12 20 else randomInRange u2 (- 20) (- 12))"

definition saturationShiftOf :: "rat \<Rightarrow> rat \<Rightarrow> int \<Rightarrow> int" where
  "saturationShiftOf u3 u4 lightShift =
     (if u3 > 1 / 2 then randomInRange u4 (- 8) 8
      else randomInRange u4 6 14 * (if lightShift > 0 then - 1 else 1))"

definition generateVariantFromHex :: "string \<Rightarrow> rat \<Rightarrow> rat \<Rightarrow> rat \<Rightarrow> rat \<Rightarrow> string" where
  \<comment> \<open>\<open>u1\<close> to \<open>u4\<close> are the four values that \<^verbatim>\<open>Math.random()\<close> returns during the call.\<close>
  "generateVariantFromHex hex u1 u2 u3 u4 =
     (let base = hexToHsl hex;
          lightShift = lightShiftOf u1 u2;
          saturationShift = saturationShiftOf u3 u4 lightShift;
          newLightness = clamp (hsl_l base + lightShift) 5 95;
          newSaturation = clamp (hsl_s base + saturationShift) 10 95
      in hslToHex (of_int (hsl_h base)) (of_int newSaturation) (of_int newLightness))"

subsection \<open>Mood presets\<close>

record mood =
  mood_label :: string
  mood_emoji :: string
  mood_primary :: string
  mood_secondary :: string

definition DEFAULT_MOOD :: string where
  "DEFAULT_MOOD = ''calm''"

definition moodPalettes :: "(string \<times> mood) list" where
  \<comment> \<open>The own properties of the object literal, in the order of the source. The emoji are
      the bytes of the source file.\<close>
  "moodPalettes =
     [(''calm'', \<lparr>mood_label = ''Calm Drift'',
         mood_emoji = [CHR 0xC3, CHR 0xA3, CHR 0xE2, CHR 0x82, CHR 0xAC, CHR 0xC2, CHR 0xB0,
                       CHR 0xC3, CHR 0xAF, CHR 0xC2, CHR 0xB8, CHR 0xC2, CHR 0x8F],
         mood_primary = ''#5468ff'', mood_secondary = ''#bfe0ff''\<rparr>),
      (''noir'', \<lparr>mood_label = ''Night Grid'',
         mood_emoji = [CHR 0xC3, CHR 0xA2, CHR 0xE2, CHR 0x80, CHR 0x94, CHR 0xC2, CHR 0xBC,
                       CHR 0xC3, CHR 0xAF, CHR 0xC2, CHR 0xB8, CHR 0xC2, CHR 0x8F],
         mood_primary = ''#0b1116'', mood_secondary = ''#f5eddc''\<rparr>),
      (''bloom'', \<lparr>mood_label = ''Bloom Pop'',
         mood_emoji = [CHR 0xC3, CHR 0xA2, CHR 0xC5, CHR 0x93, CHR 0xC2, CHR 0xBF],
         mood_primary = ''#f2547d'', mood_secondary = ''#ffd9e8''\<rparr>),
      (''solar'', \<lparr>mood_label = ''Solar Flash'',
         mood_emoji = [CHR 0xC3, CHR 0xA2, CHR 0xC5, CHR 0xA1, CHR 0xC2, CHR 0xA1],
         mood_primary = ''#ff6b00'', mood_secondary = ''#ffe4a0''\<rparr>),
      (''fresh'', \<lparr>mood_label = ''Fresh Cut'',
         mood_emoji = [CHR 0xC3, CHR 0xA2, CHR 0xC5, CHR 0x93, CHR 0xC2, CHR 0xB3,
                       CHR 0xC3, CHR 0xAF, CHR 0xC2, CHR 0xB8, CHR 0xC2, CHR 0x8F],
         mood_primary = ''#1fbf8f'', mood_secondary = ''#d9ffe5''\<rparr>)]"

definition objectPrototypeKeys :: "string list" where
  \<comment> \<open>\<^verbatim>\<open>moodPalettes\<close> is an object literal, so its prototype is \<^verbatim>\<open>Object.prototype\<close>:
      these names are found through it by a property read and by the operator \<^verbatim>\<open>in\<close>.\<close>
  "objectPrototypeKeys =
     [''constructor'', ''hasOwnProperty'', ''isPrototypeOf'', ''propertyIsEnumerable'',
      ''toLocaleString'', ''toString'', ''valueOf'', ''__proto__'',
      ''__defineGetter__'', ''__defineSetter__'', ''__lookupGetter__'', ''__lookupSetter__'']"

datatype propval =
    Own mood  \<comment> \<open>one of the presets\<close>
  | Proto string  \<comment> \<open>the member of \<^verbatim>\<open>Object.prototype\<close> of that name: a function or an object\<close>
  | Undefined

definition getProp :: "string \<Rightarrow> propval" where
  \<comment> \<open>\<^verbatim>\<open>moodPalettes[key]\<close>\<close>
  "getProp key =
     (case map_of moodPalettes key of
        Some m \<Rightarrow> Own m
      | None \<Rightarrow> if key \<in> set objectPrototypeKeys then Proto key else Undefined)"

definition hasProp :: "string \<Rightarrow> bool" where
  \<comment> \<open>\<^verbatim>\<open>key in moodPalettes\<close>\<close>
  "hasProp key \<longleftrightarrow> key \<in> set (map fst moodPalettes) \<or> key \<in> set objectPrototypeKeys"

fun truthy :: "propval \<Rightarrow> bool" where
  "truthy Undefined = False"
| "truthy _ = True"

fun field :: "(mood \<Rightarrow> string) \<Rightarrow> propval \<Rightarrow> string option" where
  \<comment> \<open>Reading \<^verbatim>\<open>label\<close>, \<^verbatim>\<open>emoji\<close>, \<^verbatim>\<open>primary\<close> or \<^verbatim>\<open>secondary\<close>: no member of
      \<^verbatim>\<open>Object.prototype\<close> has a property of these names, so the read gives
      \<^verbatim>\<open>undefined\<close>, which is \<open>None\<close>. (On \<^verbatim>\<open>undefined\<close> itself the read throws;
      \<^verbatim>\<open>applyMood\<close> never reads there, since the default preset exists.)\<close>
  "field f (Own m) = Some (f m)"
| "field f _ = None"

fun toStr :: "string option \<Rightarrow> string" where
  \<comment> \<open>The conversion to a string of a template literal and of an assignment to
      \<^verbatim>\<open>value\<close> or \<^verbatim>\<open>textContent\<close>.\<close>
  "toStr None = ''undefined''"
| "toStr (Some s) = s"

subsection \<open>The palette\<close>

record entry =
  entry_name :: string
  entry_hex :: string
  entry_desc :: string

definition generatePalette :: "string \<Rightarrow> string \<Rightarrow> entry list" where
  "generatePalette primaryHex secondaryHex =
     (let p = hexToHsl primaryHex;
          s = hexToHsl secondaryHex;
          primaryLighter = hslToHex (of_int (hsl_h p)) (of_int (hsl_s p)) (of_int (min 100 (hsl_l p + 15)));
          primaryDarker = hslToHex (of_int (hsl_h p)) (of_int (hsl_s p)) (of_int (max 10 (hsl_l p - 20)));
          secondaryLighter = hslToHex (of_int (hsl_h s)) (of_int (hsl_s s)) (of_int (min 100 (hsl_l s + 15)));
          secondaryDarker = hslToHex (of_int (hsl_h s)) (of_int (hsl_s s)) (of_int (max 10 (hsl_l s - 20)));
          neutralH = Math_round (of_int (hsl_h p + hsl_h s) / 2 :: rat) mod 360;
          neutral = hslToHex (of_int neutralH) 5 95
      in [\<lparr>entry_name = ''Primary'', entry_hex = primaryHex, entry_desc = ''Base Color''\<rparr>,
          \<lparr>entry_name = ''Primary-L'', entry_hex = primaryLighter, entry_desc = ''Light Tint''\<rparr>,
          \<lparr>entry_name = ''Primary-D'', entry_hex = primaryDarker, entry_desc = ''Dark Shade''\<rparr>,
          \<lparr>entry_name = ''Secondary'', entry_hex = secondaryHex, entry_desc = ''Accent Color''\<rparr>,
          \<lparr>entry_name = ''Secondary-L'', entry_hex = secondaryLighter, entry_desc = ''Light Accent Tint''\<rparr>,
          \<lparr>entry_name = ''Neutral'', entry_hex = neutral, entry_desc = ''Background/Base''\<rparr>])"

subsection \<open>The page and its update\<close>

text \<open>
  The page is a record of what the functions read and write in the document: the values
  of the four inputs, the content of the palette display (one cell per swatch, standing
  for the markup that \<^verbatim>\<open>updateUI\<close> assembles; the empty list is the empty markup), the
  \<^verbatim>\<open>data-css\<close> attribute of the copy button, the contrast line, the toast, the mood
  buttons and the mood indicator. The timer that hides the toast is not modelled.
\<close>

record swatch =
  swatch_background :: string
  swatch_color :: string
  swatch_name :: string
  swatch_hex :: string
  swatch_desc :: string

datatype contrastText =
    WaitingForValidHex  \<comment> \<open>\<^verbatim>\<open>'Waiting for valid hex.'\<close>\<close>
  | RatioLine real bool  \<comment> \<open>\<^verbatim>\<open>`Ratio ${ratio}:1 / ${isPassing ? 'PASS AA' : 'FAIL AA'} / primary on neutral`\<close>\<close>

record ui =
  primaryHexInput :: string
  secondaryHexInput :: string
  primaryColorInput :: string
  secondaryColorInput :: string
  paletteDisplay :: "swatch list"
  copyCssData :: "string option"
  contrastResult :: contrastText
  toastText :: string
  toastShown :: bool
  moodButtons :: "(string option \<times> bool) list"
  moodIndicator :: "string option"
  currentMood :: string

datatype error = TypeError

fun replaceFirst :: "char \<Rightarrow> char \<Rightarrow> string \<Rightarrow> string" where
  \<comment> \<open>\<^verbatim>\<open>replace\<close> with a string pattern replaces the first occurrence only.\<close>
  "replaceFirst a b [] = []"
| "replaceFirst a b (c # cs) = (if c = a then b # cs else c # replaceFirst a b cs)"

definition swatchOf :: "entry \<Rightarrow> swatch" where
  "swatchOf p =
     (let isDark = hsl_l (hexToHsl (entry_hex p)) < 50;
          textColor = (if isDark then ''#ffffff'' else ''#000000'')
      in \<lparr>swatch_background = entry_hex p, swatch_color = textColor,
          swatch_name = entry_name p, swatch_hex = entry_hex p, swatch_desc = entry_desc p\<rparr>)"

definition cssLine :: "entry \<Rightarrow> string" where
  "cssLine p =
     ''  --color-'' @ replaceFirst CHR ''-'' CHR ''_'' (toLowerCase (entry_name p))
       @ '': '' @ entry_hex p @ [CHR '';'', CHR 0x0A]"

definition updateUI :: "ui \<Rightarrow> error + ui" where
  \<comment> \<open>\<^verbatim>\<open>palette.find(...)\<close> gives \<^verbatim>\<open>undefined\<close> when no entry has the name, and reading
      \<^verbatim>\<open>hex\<close> there throws a \<^verbatim>\<open>TypeError\<close>.\<close>
  "updateUI st =
     (let primaryHex = toLowerCase (primaryHexInput st);
          secondaryHex = toLowerCase (secondaryHexInput st)
      in if \<not> isHexShape primaryHex \<or> \<not> isHexShape secondaryHex
         then Inr (st\<lparr>contrastResult := WaitingForValidHex, paletteDisplay := []\<rparr>)
         else
           let palette = generatePalette primaryHex secondaryHex;
               html = map swatchOf palette;
               cssVariables = '':root {'' @ [CHR 0x0A] @ concat (map cssLine palette) @ ''}'';
               st1 = st\<lparr>paletteDisplay := html, copyCssData := Some cssVariables\<rparr>
           in case find (\<lambda>p. entry_name p = ''Primary'') palette of
                None \<Rightarrow> Inl TypeError
              | Some primaryText \<Rightarrow>
                  (case find (\<lambda>p. entry_name p = ''Neutral'') palette of
                     None \<Rightarrow> Inl TypeError
                   | Some neutralBg \<Rightarrow>
                       let ratio = getContrastRatio (entry_hex primaryText) (entry_hex neutralBg);
                           isPassing = (ratio \<ge> 4.5)
                       in Inr (st1\<lparr>contrastResult := RatioLine ratio isPassing\<rparr>)))"

definition syncColorInputs :: "string \<Rightarrow> string \<Rightarrow> ui \<Rightarrow> ui" where
  "syncColorInputs type hex st =
     (if type = ''primary'' then st\<lparr>primaryHexInput := hex, primaryColorInput := hex\<rparr>
      else st\<lparr>secondaryHexInput := hex, secondaryColorInput := hex\<rparr>)"

definition setActiveMoodButton :: "string \<Rightarrow> ui \<Rightarrow> ui" where
  \<comment> \<open>A button is its \<^verbatim>\<open>data-mood\<close> attribute, if it has one, and its
      \<^verbatim>\<open>aria-pressed\<close> state.\<close>
  "setActiveMoodButton activeKey st =
     st\<lparr>moodButtons := map (\<lambda>(k, _). (k, k = Some activeKey)) (moodButtons st)\<rparr>"

definition showToast :: "string \<Rightarrow> ui \<Rightarrow> ui" where
  "showToast message st = st\<lparr>toastText := message, toastShown := True\<rparr>"

definition applyMood :: "string \<Rightarrow> bool \<Rightarrow> ui \<Rightarrow> error + ui" where
  \<comment> \<open>The mood indicator element may be missing from the page: then its field is \<open>None\<close>
      and stays so.\<close>
  "applyMood moodKey announce st =
     (let mood = (if truthy (getProp moodKey) then getProp moodKey else getProp DEFAULT_MOOD);
          st1 = st\<lparr>currentMood := (if hasProp moodKey then moodKey else DEFAULT_MOOD)\<rparr>;
          st2 = syncColorInputs ''primary'' (toStr (field mood_primary mood)) st1;
          st3 = syncColorInputs ''secondary'' (toStr (field mood_secondary mood)) st2
      in case updateUI st3 of
           Inl e \<Rightarrow> Inl e
         | Inr st4 \<Rightarrow>
             let st5 = setActiveMoodButton (currentMood st4) st4;
                 st6 = (case moodIndicator st5 of
                          None \<Rightarrow> st5
                        | Some _ \<Rightarrow>
                            st5\<lparr>moodIndicator :=
                              Some (toStr (field mood_emoji mood) @ '' '' @ toStr (field mood_label mood))\<rparr>);
                 st7 = (if announce then showToast (toStr (field mood_label mood) @ '' mood applied'') st6
                        else st6)
             in Inr st7)"

subsection \<open>Observations used by the properties\<close>

definition examplePage :: "string \<Rightarrow> string \<Rightarrow> ui" where
  \<comment> \<open>A page with the given texts in the two hex inputs, before any update.\<close>
  "examplePage p s =
     \<lparr>primaryHexInput = p, secondaryHexInput = s, primaryColorInput = p, secondaryColorInput = s,
      paletteDisplay = [], copyCssData = None, contrastResult = WaitingForValidHex,
      toastText = [], toastShown = False,
      moodButtons = [(Some ''calm'', True), (Some ''noir'', False), (Some ''bloom'', False),
                     (Some ''solar'', False), (Some ''fresh'', False)],
      moodIndicator = Some [], currentMood = ''calm''\<rparr>"

definition halts :: "ui \<Rightarrow> bool" where
  \<comment> \<open>\<^verbatim>\<open>updateUI\<close> takes its early return: the waiting message, an empty display, and
      nothing else touched.\<close>
  "halts st \<longleftrightarrow> updateUI st = Inr (st\<lparr>contrastResult := WaitingForValidHex, paletteDisplay := []\<rparr>)"

definition appliedMood :: "string \<Rightarrow> ui \<Rightarrow> (string \<times> string \<times> string) option" where
  \<comment> \<open>What \<^verbatim>\<open>applyMood(key)\<close> leaves behind: the mood key it stores and the texts of the
      primary and secondary hex inputs.\<close>
  "appliedMood key st =
     (case applyMood key True st of
        Inl _ \<Rightarrow> None
      | Inr st' \<Rightarrow> Some (currentMood st', primaryHexInput st', secondaryHexInput st'))"

definition roundTrip :: "string \<Rightarrow> string" where
  \<comment> \<open>\<^verbatim>\<open>hslToHex\<close> applied to the three components that \<^verbatim>\<open>hexToHsl\<close> returns.\<close>
  "roundTrip hex =
     (let x = hexToHsl hex in hslToHex (of_int (hsl_h x)) (of_int (hsl_s x)) (of_int (hsl_l x)))"

subsection \<open>The conversions without rounding\<close>

text \<open>
  The formulas of \<^verbatim>\<open>hslToHex\<close> and \<^verbatim>\<open>hexToHsl\<close> in exact rational arithmetic. They are
  not part of the program: the proofs compare the binary64 computations with them.
\<close>

definition waveExact :: "rat \<Rightarrow> rat" where
  "waveExact k = max (min (k - 3) (min (9 - k) 1)) (- 1)"

definition hslColorExact :: "rat \<Rightarrow> rat \<Rightarrow> rat \<Rightarrow> rat \<Rightarrow> rat" where
  "hslColorExact h l a n = (let k = js_rem (n + h / 30) 12 in l - a * waveExact k)"

definition rgbToHslExact :: "rgb \<Rightarrow> rat \<times> rat \<times> rat" where
  "rgbToHslExact c =
     (let rr = of_int (rgb_r c) / 255; gg = of_int (rgb_g c) / 255; bb = of_int (rgb_b c) / 255;
          mx = max rr (max gg bb); mn = min rr (min gg bb);
          l = (mx + mn) / 2 in
      if mx = mn then (0, 0, l)
      else
        let d = mx - mn;
            s = (if l > 1 / 2 then d / (2 - mx - mn) else d / (mx + mn));
            h = (if mx = rr then (gg - bb) / d + (if gg < bb then 6 else 0)
                 else if mx = gg then (bb - rr) / d + 2
                 else (rr - gg) / d + 4)
        in (h / 6, s, l))"

section \<open>Properties\<close>

subsection \<open>Evaluation of strings\<close>

lemmas shape_eval = isHexShape_def isLowerHexDigit_def

lemmas lower_eval = toLowerCase_def lowerChar_def char_of_def bit_Suc_0_iff

subsection \<open>The palette\<close>

lemma find_Primary:
  "find (\<lambda>p. entry_name p = ''Primary'') (generatePalette P S)
     = Some \<lparr>entry_name = ''Primary'', entry_hex = P, entry_desc = ''Base Color''\<rparr>"
  by (simp add: generatePalette_def Let_def)

lemma find_Neutral:
  "find (\<lambda>p. entry_name p = ''Neutral'') (generatePalette P S) = Some (generatePalette P S ! 5)"
  by (simp add: generatePalette_def Let_def)

text \<open>
  Claim C5: for valid hex colours \<open>P\<close> and \<open>S\<close>, \<^verbatim>\<open>generatePalette\<close> returns exactly six
  entries, named Primary, Primary-L, Primary-D, Secondary, Secondary-L, Neutral in this
  order; the Primary entry carries \<open>P\<close> and the Secondary entry carries \<open>S\<close>, unchanged; no
  entry is named Secondary-D.
\<close>

theorem generatePalette_shape:
  assumes "isHexShape P" and "isHexShape S"
  shows "length (generatePalette P S) = 6
    \<and> map entry_name (generatePalette P S)
        = [''Primary'', ''Primary-L'', ''Primary-D'', ''Secondary'', ''Secondary-L'', ''Neutral'']
    \<and> entry_hex (generatePalette P S ! 0) = P
    \<and> entry_hex (generatePalette P S ! 3) = S
    \<and> ''Secondary-D'' \<notin> set (map entry_name (generatePalette P S))"
  by (simp add: generatePalette_def Let_def)

theorem generatePalette_shape_witness:
  "isHexShape ''#5468ff'' \<and> isHexShape ''#bfe0ff''
    \<and> length (generatePalette ''#5468ff'' ''#bfe0ff'') = 6
    \<and> map entry_name (generatePalette ''#5468ff'' ''#bfe0ff'')
        = [''Primary'', ''Primary-L'', ''Primary-D'', ''Secondary'', ''Secondary-L'', ''Neutral'']
    \<and> entry_hex (generatePalette ''#5468ff'' ''#bfe0ff'' ! 0) = ''#5468ff''
    \<and> entry_hex (generatePalette ''#5468ff'' ''#bfe0ff'' ! 3) = ''#bfe0ff''
    \<and> ''Secondary-D'' \<notin> set (map entry_name (generatePalette ''#5468ff'' ''#bfe0ff''))"
proof -
  have a: "isHexShape ''#5468ff''" and b: "isHexShape ''#bfe0ff''"
    by (simp_all add: shape_eval)
  from generatePalette_shape [OF a b] a b show ?thesis by blast
qed

subsection \<open>The update of the page\<close>

lemma updateUI_invalid:
  "\<not> (isHexShape (toLowerCase (primaryHexInput st)) \<and> isHexShape (toLowerCase (secondaryHexInput st)))
   \<Longrightarrow> updateUI st = Inr (st\<lparr>contrastResult := WaitingForValidHex, paletteDisplay := []\<rparr>)"
  by (auto simp add: updateUI_def Let_def)

lemma updateUI_valid:
  assumes "isHexShape (toLowerCase (primaryHexInput st))"
    and "isHexShape (toLowerCase (secondaryHexInput st))"
  defines "palette \<equiv> generatePalette (toLowerCase (primaryHexInput st)) (toLowerCase (secondaryHexInput st))"
  defines "ratio \<equiv> getContrastRatio (toLowerCase (primaryHexInput st)) (entry_hex (palette ! 5))"
  shows "updateUI st = Inr (st\<lparr>
      paletteDisplay := map swatchOf palette,
      copyCssData := Some ('':root {'' @ [CHR 0x0A] @ concat (map cssLine palette) @ ''}''),
      contrastResult := RatioLine ratio (ratio \<ge> 4.5)\<rparr>)"
  using assms(1,2) unfolding palette_def ratio_def
  by (simp add: updateUI_def Let_def find_Primary find_Neutral)

lemma updateUI_valid_not_halts:
  assumes "isHexShape (toLowerCase (primaryHexInput st))"
    and "isHexShape (toLowerCase (secondaryHexInput st))"
  shows "\<not> halts st"
proof
  assume h: "halts st"
  from updateUI_valid [OF assms] obtain st' r b
    where "updateUI st = Inr st'" and "contrastResult st' = RatioLine r b"
    by force
  with h show False
    by (auto simp: halts_def dest: arg_cong [where f = contrastResult])
qed

lemma updateUI_total:
  "\<exists>st'. updateUI st = Inr st' \<and> currentMood st' = currentMood st
     \<and> primaryHexInput st' = primaryHexInput st \<and> secondaryHexInput st' = secondaryHexInput st"
proof (cases "isHexShape (toLowerCase (primaryHexInput st)) \<and> isHexShape (toLowerCase (secondaryHexInput st))")
  case True
  with updateUI_valid [of st] show ?thesis by auto
next
  case False
  with updateUI_invalid [of st] show ?thesis by auto
qed

lemma lower_FFFFFF: "toLowerCase ''#FFFFFF'' = ''#ffffff''"
  by (simp add: lower_eval)

lemma lower_000000: "toLowerCase ''#000000'' = ''#000000''"
  by (simp add: lower_eval)

lemma lower_zzzzzz: "toLowerCase ''#zzzzzz'' = ''#zzzzzz''"
  by (simp add: lower_eval)

text \<open>
  Claim C3, as stated, fails: the text \<^verbatim>\<open>#FFFFFF\<close> is not a lower-case \<^verbatim>\<open>#rrggbb\<close>
  string, and with it in the primary input \<^verbatim>\<open>updateUI\<close> does not halt, since it tests
  the lower-cased text.
\<close>

theorem updateUI_uppercase_counterexample:
  "\<not> isHexShape ''#FFFFFF'' \<and> \<not> halts (examplePage ''#FFFFFF'' ''#000000'')"
proof -
  have "\<not> halts (examplePage ''#FFFFFF'' ''#000000'')"
    by (rule updateUI_valid_not_halts)
      (simp_all add: examplePage_def lower_FFFFFF lower_000000 shape_eval)
  moreover have "\<not> isHexShape ''#FFFFFF''"
    by (simp add: shape_eval)
  ultimately show ?thesis by simp
qed

text \<open>
  Claim C3, amended: if the lower-cased text of either hex input is not a \<^verbatim>\<open>#\<close> followed
  by six characters of \<^verbatim>\<open>[0-9a-f]\<close>, \<^verbatim>\<open>updateUI\<close> halts: the contrast line shows the
  waiting message, the palette display is emptied and nothing else changes. If both
  lower-cased texts have the shape, it does not halt and the display holds the swatches of
  the palette of the two lower-cased texts.
\<close>

theorem updateUI_halts_unless_lowercased_shape:
  "(\<not> (isHexShape (toLowerCase (primaryHexInput st)) \<and> isHexShape (toLowerCase (secondaryHexInput st)))
      \<longrightarrow> updateUI st = Inr (st\<lparr>contrastResult := WaitingForValidHex, paletteDisplay := []\<rparr>))
   \<and> (isHexShape (toLowerCase (primaryHexInput st)) \<and> isHexShape (toLowerCase (secondaryHexInput st))
      \<longrightarrow> updateUI st \<noteq> Inr (st\<lparr>contrastResult := WaitingForValidHex, paletteDisplay := []\<rparr>)
        \<and> map_sum id paletteDisplay (updateUI st)
            = Inr (map swatchOf (generatePalette (toLowerCase (primaryHexInput st))
                                                 (toLowerCase (secondaryHexInput st)))))"
proof (intro conjI impI)
  assume "\<not> (isHexShape (toLowerCase (primaryHexInput st)) \<and> isHexShape (toLowerCase (secondaryHexInput st)))"
  then show "updateUI st = Inr (st\<lparr>contrastResult := WaitingForValidHex, paletteDisplay := []\<rparr>)"
    by (rule updateUI_invalid)
next
  assume a: "isHexShape (toLowerCase (primaryHexInput st)) \<and> isHexShape (toLowerCase (secondaryHexInput st))"
  then have "\<not> halts st"
    by (simp add: updateUI_valid_not_halts)
  then show "updateUI st \<noteq> Inr (st\<lparr>contrastResult := WaitingForValidHex, paletteDisplay := []\<rparr>)"
    by (simp add: halts_def)
  from a updateUI_valid [of st]
  show "map_sum id paletteDisplay (updateUI st)
          = Inr (map swatchOf (generatePalette (toLowerCase (primaryHexInput st))
                                               (toLowerCase (secondaryHexInput st))))"
    by auto
qed

theorem updateUI_halts_unless_lowercased_shape_witness:
  "\<not> isHexShape (toLowerCase ''#zzzzzz'')
   \<and> updateUI (examplePage ''#zzzzzz'' ''#000000'')
       = Inr ((examplePage ''#zzzzzz'' ''#000000'')\<lparr>contrastResult := WaitingForValidHex, paletteDisplay := []\<rparr>)
   \<and> isHexShape (toLowerCase ''#FFFFFF'') \<and> isHexShape (toLowerCase ''#000000'')
   \<and> updateUI (examplePage ''#FFFFFF'' ''#000000'')
       \<noteq> Inr ((examplePage ''#FFFFFF'' ''#000000'')\<lparr>contrastResult := WaitingForValidHex, paletteDisplay := []\<rparr>)
   \<and> map_sum id paletteDisplay (updateUI (examplePage ''#FFFFFF'' ''#000000''))
       = Inr (map swatchOf (generatePalette ''#ffffff'' ''#000000''))"
proof -
  have z: "\<not> isHexShape (toLowerCase ''#zzzzzz'')"
    by (simp add: lower_zzzzzz shape_eval)
  have f: "isHexShape (toLowerCase ''#FFFFFF'')" and o: "isHexShape (toLowerCase ''#000000'')"
    by (simp_all add: lower_FFFFFF lower_000000 shape_eval)
  have pz: "primaryHexInput (examplePage ''#zzzzzz'' ''#000000'') = ''#zzzzzz''"
    and pf: "primaryHexInput (examplePage ''#FFFFFF'' ''#000000'') = ''#FFFFFF''"
    and so: "secondaryHexInput (examplePage ''#FFFFFF'' ''#000000'') = ''#000000''"
    by (simp_all add: examplePage_def)
  from updateUI_halts_unless_lowercased_shape [of "examplePage ''#zzzzzz'' ''#000000''"] z
  have 1: "updateUI (examplePage ''#zzzzzz'' ''#000000'')
       = Inr ((examplePage ''#zzzzzz'' ''#000000'')\<lparr>contrastResult := WaitingForValidHex, paletteDisplay := []\<rparr>)"
    by (simp add: pz)
  from updateUI_halts_unless_lowercased_shape [of "examplePage ''#FFFFFF'' ''#000000''"] f o
  have 2: "updateUI (examplePage ''#FFFFFF'' ''#000000'')
       \<noteq> Inr ((examplePage ''#FFFFFF'' ''#000000'')\<lparr>contrastResult := WaitingForValidHex, paletteDisplay := []\<rparr>)
   \<and> map_sum id paletteDisplay (updateUI (examplePage ''#FFFFFF'' ''#000000''))
       = Inr (map swatchOf (generatePalette ''#ffffff'' ''#000000''))"
    by (simp add: pf so lower_FFFFFF lower_000000)
  from z f o 1 2 show ?thesis by blast
qed

subsection \<open>Moods\<close>

lemma appliedMood_eq:
  "appliedMood key st =
    (let mood = (if truthy (getProp key) then getProp key else getProp DEFAULT_MOOD) in
     Some (if hasProp key then key else DEFAULT_MOOD,
           toStr (field mood_primary mood), toStr (field mood_secondary mood)))"
proof -
  define mood where "mood = (if truthy (getProp key) then getProp key else getProp DEFAULT_MOOD)"
  define st3 where "st3 = syncColorInputs ''secondary'' (toStr (field mood_secondary mood))
     (syncColorInputs ''primary'' (toStr (field mood_primary mood))
       (st\<lparr>currentMood := (if hasProp key then key else DEFAULT_MOOD)\<rparr>))"
  obtain st4 where u: "updateUI st3 = Inr st4" "currentMood st4 = currentMood st3"
    "primaryHexInput st4 = primaryHexInput st3" "secondaryHexInput st4 = secondaryHexInput st3"
    using updateUI_total [of st3] by blast
  have s3: "currentMood st3 = (if hasProp key then key else DEFAULT_MOOD)"
    "primaryHexInput st3 = toStr (field mood_primary mood)"
    "secondaryHexInput st3 = toStr (field mood_secondary mood)"
    by (simp_all add: st3_def syncColorInputs_def)
  show ?thesis
    unfolding appliedMood_def applyMood_def Let_def mood_def [symmetric] st3_def [symmetric]
    using u s3 by (simp add: setActiveMoodButton_def showToast_def split: option.splits)
qed

lemma getProp_own: "(key, m) \<in> set moodPalettes \<Longrightarrow> getProp key = Own m \<and> hasProp key"
  by (auto simp add: getProp_def hasProp_def moodPalettes_def)

lemma getProp_unknown:
  "key \<notin> set (map fst moodPalettes) \<Longrightarrow> key \<notin> set objectPrototypeKeys
   \<Longrightarrow> getProp key = Undefined \<and> \<not> hasProp key"
  by (simp add: getProp_def hasProp_def map_of_eq_None_iff [THEN iffD2])

lemma getProp_default:
  "\<exists>m. getProp DEFAULT_MOOD = Own m \<and> mood_primary m = ''#5468ff'' \<and> mood_secondary m = ''#bfe0ff''"
  by (simp add: getProp_def DEFAULT_MOOD_def moodPalettes_def)

text \<open>
  The part of claim C8 that the code keeps: each of the five keys of the catalog resolves
  to its own preset, and a key that is neither in the catalog nor a property name of
  \<^verbatim>\<open>Object.prototype\<close> resolves to the calm preset.
\<close>

lemma applyMood_catalog_key:
  "(key, m) \<in> set moodPalettes \<Longrightarrow> appliedMood key st = Some (key, mood_primary m, mood_secondary m)"
  by (simp add: appliedMood_eq getProp_own)

lemma applyMood_unknown_key:
  assumes "key \<notin> set (map fst moodPalettes)" and "key \<notin> set objectPrototypeKeys"
  shows "appliedMood key st = Some (''calm'', ''#5468ff'', ''#bfe0ff'')"
proof -
  obtain m where "getProp DEFAULT_MOOD = Own m" "mood_primary m = ''#5468ff''"
    "mood_secondary m = ''#bfe0ff''"
    using getProp_default by blast
  with getProp_unknown [OF assms] show ?thesis
    by (simp add: appliedMood_eq) (simp add: DEFAULT_MOOD_def)
qed

text \<open>
  Claim C8 at the key \<^verbatim>\<open>toString\<close>, which is not one of the five catalog keys: the
  property read finds \<^verbatim>\<open>Object.prototype.toString\<close>, so no fallback happens; the stored
  key is \<^verbatim>\<open>toString\<close> and both hex inputs receive the text \<^verbatim>\<open>undefined\<close>, not the calm
  colours.
\<close>

theorem applyMood_inherited_key:
  "appliedMood ''toString'' (examplePage ''#5468ff'' ''#bfe0ff'')
     = Some (''toString'', ''undefined'', ''undefined'')"
  by (simp add: appliedMood_eq getProp_def hasProp_def moodPalettes_def objectPrototypeKeys_def)

subsection \<open>Luminance and contrast\<close>

lemma hexToRgb_range:
  "0 \<le> rgb_r (hexToRgb hex) \<and> rgb_r (hexToRgb hex) \<le> 255
   \<and> 0 \<le> rgb_g (hexToRgb hex) \<and> rgb_g (hexToRgb hex) \<le> 255
   \<and> 0 \<le> rgb_b (hexToRgb hex) \<and> rgb_b (hexToRgb hex) \<le> 255"
  by (simp add: hexToRgb_def Let_def)

lemma channelLinear_range:
  assumes "0 \<le> v" and "v \<le> 255"
  shows "0 \<le> channelLinear v \<and> channelLinear v \<le> 1"
proof (cases "v / 255 \<le> 0.03928")
  case True
  with assms show ?thesis by (simp add: channelLinear_def)
next
  case False
  have "\<bar>(v / 255 + 0.055) / 1.055\<bar> \<le> 1"
    using assms by simp
  then have "((v / 255 + 0.055) / 1.055) powr 2.4 \<le> 1"
    by (intro powr_le1) simp_all
  with False show ?thesis by (simp add: channelLinear_def)
qed

lemma getLuminance_range:
  assumes "0 \<le> rgb_r c" "rgb_r c \<le> 255" "0 \<le> rgb_g c" "rgb_g c \<le> 255" "0 \<le> rgb_b c" "rgb_b c \<le> 255"
  shows "0 \<le> getLuminance c \<and> getLuminance c \<le> 1"
proof -
  have r: "0 \<le> channelLinear (of_int (rgb_r c)) \<and> channelLinear (of_int (rgb_r c)) \<le> 1"
    using assms by (intro channelLinear_range) simp_all
  have g: "0 \<le> channelLinear (of_int (rgb_g c)) \<and> channelLinear (of_int (rgb_g c)) \<le> 1"
    using assms by (intro channelLinear_range) simp_all
  have b: "0 \<le> channelLinear (of_int (rgb_b c)) \<and> channelLinear (of_int (rgb_b c)) \<le> 1"
    using assms by (intro channelLinear_range) simp_all
  from r g b show ?thesis by (simp add: getLuminance_def)
qed

lemma luminance_hex_range: "0 \<le> getLuminance (hexToRgb hex) \<and> getLuminance (hexToRgb hex) \<le> 1"
  using hexToRgb_range [of hex] by (intro getLuminance_range) simp_all

lemma contrast_bounds: "1 \<le> getContrastRatio A B \<and> getContrastRatio A B \<le> 21"
proof -
  define l1 where "l1 = getLuminance (hexToRgb A)"
  define l2 where "l2 = getLuminance (hexToRgb B)"
  define ratio where "ratio = (max l1 l2 + 0.05) / (min l1 l2 + 0.05)"
  have b: "0 \<le> l1" "l1 \<le> 1" "0 \<le> l2" "l2 \<le> 1"
    using luminance_hex_range [of A] luminance_hex_range [of B] by (simp_all add: l1_def l2_def)
  then have pos: "0 < min l1 l2 + 0.05" by simp
  have "min l1 l2 + 0.05 \<le> max l1 l2 + 0.05" by simp
  with pos have lo: "1 \<le> ratio" by (simp add: ratio_def)
  have "max l1 l2 + 0.05 \<le> 21 * (min l1 l2 + 0.05)" using b by simp
  with pos have hi: "ratio \<le> 21" by (simp add: ratio_def pos_divide_le_eq)
  have "10 \<le> Math_round (ratio * 10)" using lo by (simp add: Math_round_def le_floor_iff)
  moreover have "Math_round (ratio * 10) \<le> 210" using hi by (simp add: Math_round_def floor_le_iff)
  moreover have "getContrastRatio A B = of_int (Math_round (ratio * 10)) / 10"
    by (simp add: getContrastRatio_def Let_def ratio_def l1_def l2_def)
  ultimately show ?thesis by simp
qed

lemma contrast_commute: "getContrastRatio A B = getContrastRatio B A"
  by (simp add: getContrastRatio_def Let_def max.commute min.commute)

lemma contrast_self: "getContrastRatio X X = 1"
proof -
  define l where "l = getLuminance (hexToRgb X)"
  have "0 < l + 0.05"
    using luminance_hex_range [of X] by (simp add: l_def)
  then have "(max l l + 0.05) / (min l l + 0.05) = 1" by simp
  then show ?thesis
    unfolding getContrastRatio_def Let_def l_def [symmetric] by (simp add: Math_round_def)
qed

lemma rgb_black: "hexToRgb ''#000000'' = \<lparr>rgb_r = 0, rgb_g = 0, rgb_b = 0\<rparr>"
  by (simp add: hexToRgb_def parseInt16_def hexDigit_def)

lemma rgb_white: "hexToRgb ''#ffffff'' = \<lparr>rgb_r = 255, rgb_g = 255, rgb_b = 255\<rparr>"
  by (simp add: hexToRgb_def parseInt16_def hexDigit_def)

lemma lum_black: "getLuminance (hexToRgb ''#000000'') = 0"
  by (simp add: rgb_black getLuminance_def channelLinear_def)

lemma lum_white: "getLuminance (hexToRgb ''#ffffff'') = 1"
  by (simp add: rgb_white getLuminance_def channelLinear_def)

lemma contrast_bw: "getContrastRatio ''#000000'' ''#ffffff'' = 21"
  by (simp add: getContrastRatio_def lum_black lum_white Math_round_def)

text \<open>
  Claim C6: the contrast ratio of \<^verbatim>\<open>#000000\<close> and \<^verbatim>\<open>#ffffff\<close> is exactly 21, and the
  contrast ratio of every valid hex colour with itself is exactly 1.
\<close>

theorem getContrastRatio_extremes:
  "getContrastRatio ''#000000'' ''#ffffff'' = 21
   \<and> (\<forall>X. isHexShape X \<longrightarrow> getContrastRatio X X = 1)"
  by (simp add: contrast_bw contrast_self)

theorem getContrastRatio_extremes_witness:
  "isHexShape ''#5468ff'' \<and> getContrastRatio ''#5468ff'' ''#5468ff'' = 1
   \<and> getContrastRatio ''#000000'' ''#ffffff'' = 21"
proof -
  have a: "isHexShape ''#5468ff''"
    by (simp add: shape_eval)
  with getContrastRatio_extremes show ?thesis by blast
qed

text \<open>
  Claim C7: for valid hex colours \<open>A\<close> and \<open>B\<close>, the contrast ratio of \<open>A\<close> and \<open>B\<close> equals
  the contrast ratio of \<open>B\<close> and \<open>A\<close>.
\<close>

theorem getContrastRatio_symmetric:
  assumes "isHexShape A" and "isHexShape B"
  shows "getContrastRatio A B = getContrastRatio B A"
  by (rule contrast_commute)

theorem getContrastRatio_symmetric_witness:
  "isHexShape ''#5468ff'' \<and> isHexShape ''#bfe0ff''
   \<and> getContrastRatio ''#5468ff'' ''#bfe0ff'' = getContrastRatio ''#bfe0ff'' ''#5468ff''"
proof -
  have a: "isHexShape ''#5468ff''" and b: "isHexShape ''#bfe0ff''"
    by (simp_all add: shape_eval)
  from getContrastRatio_symmetric [OF a b] a b show ?thesis by blast
qed

text \<open>
  Claim C10: for valid hex colours \<open>A\<close> and \<open>B\<close>, the contrast ratio lies in the closed
  interval from 1 to 21.
\<close>

theorem getContrastRatio_range:
  assumes "isHexShape A" and "isHexShape B"
  shows "1 \<le> getContrastRatio A B \<and> getContrastRatio A B \<le> 21"
  by (rule contrast_bounds)

theorem getContrastRatio_range_witness:
  "isHexShape ''#0b1116'' \<and> isHexShape ''#f5eddc''
   \<and> 1 \<le> getContrastRatio ''#0b1116'' ''#f5eddc'' \<and> getContrastRatio ''#0b1116'' ''#f5eddc'' \<le> 21"
proof -
  have a: "isHexShape ''#0b1116''" and b: "isHexShape ''#f5eddc''"
    by (simp_all add: shape_eval)
  from getContrastRatio_range [OF a b] a b show ?thesis by blast
qed

subsection \<open>Rounding to binary64\<close>

lemma rhe_near: "\<bar>of_int (rhe y) - y\<bar> \<le> 1 / 2"
proof -
  have "of_int \<lfloor>y\<rfloor> \<le> y" "y < of_int \<lfloor>y\<rfloor> + 1"
    using floor_correct [of y] by simp_all
  then show ?thesis
    unfolding rhe_def Let_def by (simp split: if_splits)
qed

lemma rhe_nonneg: "0 \<le> y \<Longrightarrow> 0 \<le> rhe y"
proof -
  assume "0 \<le> y"
  then have "0 \<le> \<lfloor>y\<rfloor>" by simp
  then show ?thesis unfolding rhe_def Let_def by (simp split: if_splits)
qed

lemma bitlen_pos_eq:
  assumes "0 < p"
  obtains P where "bitlen p = int P + 1" and "2 ^ P \<le> p" and "p < 2 * 2 ^ P"
proof -
  have b: "1 \<le> bitlen p"
    using assms bitlen_eq_zero_iff [of p] bitlen_nonneg [of p] by linarith
  define P where "P = nat (bitlen p - 1)"
  have e: "bitlen p = int P + 1" using b by (simp add: P_def)
  have n: "nat (bitlen p) = Suc P" using b by (simp add: P_def)
  from bitlen_bounds [OF assms] have "2 ^ P \<le> p" "p < 2 ^ Suc P"
    unfolding n P_def [symmetric] by simp_all
  then show ?thesis using e that by simp
qed

lemma expo_bounds:
  assumes "x \<noteq> 0"
  shows "2 powi expo x \<le> \<bar>x\<bar>" and "\<bar>x\<bar> < 2 powi (expo x + 1)"
proof -
  obtain p q where pq: "quotient_of \<bar>x\<bar> = (p, q)" by (cases "quotient_of \<bar>x\<bar>")
  have q: "0 < q" by (rule quotient_of_denom_pos [OF pq])
  have x: "\<bar>x\<bar> = of_int p / of_int q" by (rule quotient_of_div [OF pq])
  have "0 < \<bar>x\<bar>" using assms by simp
  then have p: "0 < p" unfolding x using q by (simp add: zero_less_divide_iff)
  obtain P where P: "bitlen p = int P + 1" "2 ^ P \<le> p" "p < 2 * 2 ^ P"
    by (rule bitlen_pos_eq [OF p])
  obtain Q where Q: "bitlen q = int Q + 1" "2 ^ Q \<le> q" "q < 2 * 2 ^ Q"
    by (rule bitlen_pos_eq [OF q])
  define e0 where "e0 = int P - int Q"
  have e0: "(2::rat) powi e0 = 2 ^ P / 2 ^ Q"
    unfolding e0_def by (simp add: power_int_diff)
  have ex: "expo x = (if 2 powi e0 \<le> \<bar>x\<bar> then e0 else e0 - 1)"
    by (simp add: expo_def pq P Q e0_def Let_def)
  have rp: "(2::rat) ^ P \<le> of_int p" "(of_int p :: rat) < 2 * 2 ^ P"
    using P(2,3) by (metis of_int_le_iff of_int_numeral of_int_power, metis of_int_less_iff of_int_mult of_int_numeral of_int_power)
  have rq: "(2::rat) ^ Q \<le> of_int q" "(of_int q :: rat) < 2 * 2 ^ Q"
    using Q(2,3) by (metis of_int_le_iff of_int_numeral of_int_power, metis of_int_less_iff of_int_mult of_int_numeral of_int_power)
  have qpos: "(0::rat) < of_int q" using q by simp
  have up: "\<bar>x\<bar> < 2 * (2 ^ P / 2 ^ Q)"
  proof -
    have "(0::rat) \<le> of_int p" using p by simp
    then have "of_int p * (2::rat) ^ Q < (2 * 2 ^ P) * of_int q"
      using rp(2) rq(1) qpos by (intro mult_less_le_imp_less) simp_all
    then show ?thesis unfolding x using qpos by (simp add: field_simps)
  qed
  have low: "(2 ^ P / 2 ^ Q) / 2 < \<bar>x\<bar>"
  proof -
    have "(2::rat) ^ P * of_int q < of_int p * (2 * 2 ^ Q)"
      using rp(1) rq(2) qpos by (intro mult_le_less_imp_less) simp_all
    then show ?thesis unfolding x using qpos by (simp add: field_simps)
  qed
  have m1: "(2::rat) powi (e0 - 1) = (2 ^ P / 2 ^ Q) / 2"
    using e0 by (simp add: power_int_diff)
  have p1: "(2::rat) powi (e0 + 1) = 2 * (2 ^ P / 2 ^ Q)"
    using e0 by (simp add: power_int_add)
  show "2 powi expo x \<le> \<bar>x\<bar>"
    unfolding ex using low m1 by (simp split: if_splits)
  show "\<bar>x\<bar> < 2 powi (expo x + 1)"
    unfolding ex using up p1 by (simp split: if_splits)
qed

lemma rnd_zero: "rnd 0 = 0"
  by (simp add: rnd_def)

lemma rnd_nonneg: "0 \<le> x \<Longrightarrow> 0 \<le> rnd x"
proof (cases "x = 0")
  case True
  then show ?thesis by (simp add: rnd_def)
next
  case False
  assume "0 \<le> x"
  define u :: rat where "u = 2 powi (max (expo x) (- 1022) - 52)"
  have u: "0 < u" by (simp add: u_def)
  then have "0 \<le> x / u" using \<open>0 \<le> x\<close> by simp
  then have "0 \<le> rhe (x / u)" by (rule rhe_nonneg)
  then have "0 \<le> u * of_int (rhe (x / u))" using u by simp
  then show ?thesis using False by (simp add: rnd_def u_def Let_def)
qed

lemma rnd_error:
  assumes "x \<noteq> 0"
  shows "\<bar>rnd x - x\<bar> \<le> 2 powi (max (expo x) (- 1022) - 53)"
proof -
  define u :: rat where "u = 2 powi (max (expo x) (- 1022) - 52)"
  have u: "0 < u" by (simp add: u_def)
  have r: "rnd x = u * of_int (rhe (x / u))"
    using assms by (simp add: rnd_def u_def Let_def)
  have "rnd x - x = u * (of_int (rhe (x / u)) - x / u)"
    unfolding r using u by (simp add: field_simps)
  then have "\<bar>rnd x - x\<bar> = u * \<bar>of_int (rhe (x / u)) - x / u\<bar>"
    using u by (simp add: abs_mult)
  also have "\<dots> \<le> u * (1 / 2)"
    using u rhe_near [of "x / u"] by (intro mult_left_mono) simp_all
  also have "\<dots> = 2 powi (max (expo x) (- 1022) - 53)"
    unfolding u_def using power_int_diff [of "2::rat" "max (expo x) (- 1022) - 52" 1] by simp
  finally show ?thesis .
qed

lemma expo_le:
  assumes "x \<noteq> 0" and "\<bar>x\<bar> < 2 powi n"
  shows "expo x < n"
proof (rule ccontr)
  assume "\<not> expo x < n"
  then have "n \<le> expo x" by simp
  then have "(2::rat) powi n \<le> 2 powi expo x" by (intro power_int_increasing) simp_all
  with expo_bounds(1) [OF assms(1)] assms(2) show False by linarith
qed

lemma expo_ge:
  assumes "x \<noteq> 0" and "2 powi n \<le> \<bar>x\<bar>"
  shows "n \<le> expo x"
proof (rule ccontr)
  assume "\<not> n \<le> expo x"
  then have "expo x + 1 \<le> n" by simp
  then have "(2::rat) powi (expo x + 1) \<le> 2 powi n" by (intro power_int_increasing) simp_all
  with expo_bounds(2) [OF assms(1)] assms(2) show False by linarith
qed

text \<open>For numbers of magnitude up to 1024 the rounding error is below \<open>10^-12\<close>.\<close>

lemma rnd_near:
  assumes "\<bar>x\<bar> \<le> 1024"
  shows "\<bar>rnd x - x\<bar> \<le> 1 / 10 ^ 12"
proof (cases "x = 0")
  case True
  then show ?thesis by (simp add: rnd_def)
next
  case False
  have "\<bar>x\<bar> < 2 powi 11" using assms by simp
  then have "expo x < 11" by (rule expo_le [OF False])
  then have "max (expo x) (- 1022) - 53 \<le> - 42" by simp
  then have "(2::rat) powi (max (expo x) (- 1022) - 53) \<le> 2 powi (- 42)"
    by (intro power_int_increasing) simp_all
  also have "\<dots> \<le> 1 / 10 ^ 12" by (simp add: power_int_minus_divide)
  finally show ?thesis using rnd_error [OF False] by linarith
qed

text \<open>The error relative to the magnitude, with the term of the subnormal range.\<close>

lemma rnd_relative:
  "\<bar>rnd x - x\<bar> \<le> max (\<bar>x\<bar> * 2 powi (- 53)) (2 powi (- 1075))"
proof (cases "x = 0")
  case True
  have "\<bar>rnd x - x\<bar> \<le> \<bar>x\<bar> * 2 powi (- 53)" using True by (simp add: rnd_def)
  then show ?thesis by (rule max.coboundedI1)
next
  case False
  show ?thesis
  proof (cases "expo x \<le> - 1022")
    case True
    then have "max (expo x) (- 1022) - 53 = - 1075" by simp
    then have "\<bar>rnd x - x\<bar> \<le> 2 powi (- 1075)" using rnd_error [OF False] by simp
    then show ?thesis by (rule max.coboundedI2)
  next
    case F: False
    then have "max (expo x) (- 1022) - 53 = expo x + (- 53)" by simp
    then have "\<bar>rnd x - x\<bar> \<le> 2 powi (expo x + (- 53))" using rnd_error [OF False] by simp
    also have "\<dots> = 2 powi expo x * 2 powi (- 53)" by (rule power_int_add) simp
    also have "\<dots> \<le> \<bar>x\<bar> * 2 powi (- 53)"
      using expo_bounds(1) [OF False] by (intro mult_right_mono) simp_all
    finally show ?thesis by (rule max.coboundedI1)
  qed
qed

text \<open>A product with a binary64 number below one stays below the other factor.\<close>

lemma rnd_scaled_below:
  assumes "0 \<le> u" and "u \<le> 1 - 2 powi (- 53)" and "1 \<le> k"
  shows "0 \<le> rnd (u * k) \<and> rnd (u * k) < k"
proof -
  define d :: rat where "d = 2 powi (- 53)"
  define t :: rat where "t = 2 powi (- 1075)"
  have d: "0 < d" by (simp add: d_def)
  have "(2::rat) powi (- 53) \<le> 2 powi 0" by (intro power_int_increasing) simp_all
  then have d1: "d \<le> 1" by (simp add: d_def)
  have "(2::rat) powi (- 1075) < 2 powi (- 53)" by (intro power_int_strict_increasing) simp_all
  then have t: "t < d" by (simp add: t_def d_def)
  have x: "0 \<le> u * k" using assms by simp
  have xk: "u * k \<le> (1 - d) * k" using assms unfolding d_def by (intro mult_right_mono) simp_all
  have e: "\<bar>rnd (u * k) - u * k\<bar> \<le> max (\<bar>u * k\<bar> * d) t"
    unfolding d_def t_def by (rule rnd_relative)
  have a: "u * k + \<bar>u * k\<bar> * d < k"
  proof -
    have "u * k + \<bar>u * k\<bar> * d = (u * k) * (1 + d)" using x by (simp add: algebra_simps)
    also have "\<dots> \<le> ((1 - d) * k) * (1 + d)"
    proof (rule mult_right_mono)
      show "u * k \<le> (1 - d) * k" by (rule xk)
      show "0 \<le> 1 + d" using d by simp
    qed
    also have "\<dots> = k - k * (d * d)" by (simp add: algebra_simps)
    also have "\<dots> < k" using assms(3) d by simp
    finally show ?thesis .
  qed
  have b: "u * k + t < k"
  proof -
    have "d * 1 \<le> d * k" using d assms(3) by (intro mult_left_mono) simp_all
    then have "t < d * k" using t by simp
    with xk show ?thesis by (simp add: algebra_simps)
  qed
  from e a b have "rnd (u * k) < k" by (simp add: max_def split: if_splits)
  moreover have "0 \<le> rnd (u * k)" using x by (rule rnd_nonneg)
  ultimately show ?thesis by simp
qed

text \<open>The largest binary64 number below one.\<close>

lemma double_below_one:
  assumes "rnd u = u" and "0 \<le> u" and "u < 1"
  shows "u \<le> 1 - 2 powi (- 53)"
proof (cases "u < 1 / 2")
  case True
  have "(2::rat) powi (- 53) \<le> 2 powi (- 1)" by (intro power_int_increasing) simp_all
  then have "(2::rat) powi (- 53) \<le> 1 / 2" by (simp add: power_int_minus_divide)
  with True show ?thesis by linarith
next
  case False
  then have nz: "u \<noteq> 0" and h: "1 / 2 \<le> u" by simp_all
  have "\<bar>u\<bar> < 2 powi 0" using assms by simp
  then have "expo u < 0" by (rule expo_le [OF nz])
  moreover have "2 powi (- 1) \<le> \<bar>u\<bar>" using h by (simp add: power_int_minus_divide)
  then have "- 1 \<le> expo u" by (rule expo_ge [OF nz])
  ultimately have e: "expo u = - 1" by simp
  define n where "n = rhe (u / 2 powi (- 53))"
  have r: "u = 2 powi (- 53) * of_int n"
    using assms(1) nz by (simp add: rnd_def e n_def Let_def)
  have p: "(2::rat) powi (- 53) = 1 / 2 ^ 53" by (simp add: power_int_minus_divide)
  have "(of_int n :: rat) < 2 ^ 53" using assms(3) unfolding r p by (simp add: field_simps)
  then have "(of_int n :: rat) < of_int (2 ^ 53)" by simp
  then have "n < 2 ^ 53" by (simp only: of_int_less_iff)
  then have "n \<le> 2 ^ 53 - 1" by simp
  then have "(of_int n :: rat) \<le> of_int (2 ^ 53 - 1)" by (simp only: of_int_le_iff)
  then have "(of_int n :: rat) \<le> 2 ^ 53 - 1" by simp
  then have "u \<le> 1 - 1 / 2 ^ 53" unfolding r p by (simp add: field_simps)
  then show ?thesis unfolding p .
qed

subsection \<open>Bytes, digits and the shape of a hex string\<close>

lemma below_16_cases:
  assumes "d < (16::nat)"
  shows "d = 0 \<or> d = 1 \<or> d = 2 \<or> d = 3 \<or> d = 4 \<or> d = 5 \<or> d = 6 \<or> d = 7
    \<or> d = 8 \<or> d = 9 \<or> d = 10 \<or> d = 11 \<or> d = 12 \<or> d = 13 \<or> d = 14 \<or> d = 15"
  using assms by presburger

lemma hexChar_lower: "d < 16 \<Longrightarrow> isLowerHexDigit (hexChar d)"
  using below_16_cases [of d] by (auto simp add: hexChar_def isLowerHexDigit_def)

lemma hexDigit_hexChar: "d < 16 \<Longrightarrow> hexDigit (hexChar d) = Some d"
  using below_16_cases [of d] by (auto simp add: hexChar_def hexDigit_def)

lemma byteString:
  assumes "0 \<le> i" and "i \<le> 255"
  shows "padStart 2 CHR ''0'' (toString16 i) = [hexChar (nat i div 16), hexChar (nat i mod 16)]"
proof (cases "nat i < 16")
  case True
  then show ?thesis using assms
    by (simp add: padStart_def toString16_def natToString16.simps [of "nat i"] hexChar_def)
next
  case False
  moreover have "nat i div 16 < 16" using assms by simp
  ultimately show ?thesis using assms
    by (simp add: padStart_def toString16_def natToString16.simps [of "nat i"] natToString16.simps [of "nat i div 16"])
qed

lemma and_255: "(x::int) AND 255 = x mod 256"
proof -
  have "(255::int) = mask 8" by (simp add: mask_eq_exp_minus_1)
  then have "x AND 255 = take_bit 8 x" by (simp only: take_bit_eq_mask)
  then show ?thesis by (simp add: take_bit_eq_mod)
qed

lemma parse_six:
  assumes "d1 < 16" "d2 < 16" "d3 < 16" "d4 < 16" "d5 < 16" "d6 < 16"
  shows "parseInt16 [hexChar d1, hexChar d2, hexChar d3, hexChar d4, hexChar d5, hexChar d6]
    = Some (((((d1 * 16 + d2) * 16 + d3) * 16 + d4) * 16 + d5) * 16 + d6)"
  using assms by (simp add: parseInt16_def hexDigit_hexChar algebra_simps)

lemma byte_split:
  fixes x y z :: int
  assumes "0 \<le> x" "x \<le> 255" "0 \<le> y" "y \<le> 255" "0 \<le> z" "z \<le> 255"
  shows "(x * 65536 + y * 256 + z) div 65536 mod 256 = x"
    and "(x * 65536 + y * 256 + z) div 256 mod 256 = y"
    and "(x * 65536 + y * 256 + z) mod 256 = z"
proof -
  have e1: "x * 65536 + y * 256 + z = (y * 256 + z) + x * 65536" by simp
  have e2: "x * 65536 + y * 256 + z = z + (x * 256 + y) * 256" by simp
  have "(y * 256 + z) div 65536 = 0" using assms by simp
  moreover have "((y * 256 + z) + x * 65536) div 65536 = x + (y * 256 + z) div 65536" by simp
  ultimately have "(x * 65536 + y * 256 + z) div 65536 = x" unfolding e1 by simp
  then show "(x * 65536 + y * 256 + z) div 65536 mod 256 = x" using assms by simp
  have "z div 256 = 0" using assms by simp
  moreover have "(z + (x * 256 + y) * 256) div 256 = (x * 256 + y) + z div 256" by simp
  ultimately have "(x * 65536 + y * 256 + z) div 256 = y + x * 256" unfolding e2 by simp
  then show "(x * 65536 + y * 256 + z) div 256 mod 256 = y" using assms by simp
  have "(z + (x * 256 + y) * 256) mod 256 = z mod 256" by (rule mod_mult_self1)
  then show "(x * 65536 + y * 256 + z) mod 256 = z" unfolding e2 using assms by simp
qed

lemma hexToRgb_bytes:
  assumes "0 \<le> x" "x \<le> 255" "0 \<le> y" "y \<le> 255" "0 \<le> z" "z \<le> 255"
  shows "hexToRgb [CHR ''#'', hexChar (nat x div 16), hexChar (nat x mod 16),
                   hexChar (nat y div 16), hexChar (nat y mod 16),
                   hexChar (nat z div 16), hexChar (nat z mod 16)]
         = \<lparr>rgb_r = x, rgb_g = y, rgb_b = z\<rparr>"
proof -
  define n where "n = ((((nat x div 16 * 16 + nat x mod 16) * 16 + nat y div 16) * 16 + nat y mod 16) * 16 + nat z div 16) * 16 + nat z mod 16"
  have d: "nat x div 16 < 16" "nat y div 16 < 16" "nat z div 16 < 16"
    "nat x mod 16 < 16" "nat y mod 16 < 16" "nat z mod 16 < 16"
    using assms by simp_all
  have p: "parseInt16 [hexChar (nat x div 16), hexChar (nat x mod 16),
                   hexChar (nat y div 16), hexChar (nat y mod 16),
                   hexChar (nat z div 16), hexChar (nat z mod 16)] = Some n"
    unfolding n_def by (rule parse_six [OF d(1) d(4) d(2) d(5) d(3) d(6)])
  have n: "int n = x * 65536 + y * 256 + z"
    using assms unfolding n_def by (simp add: algebra_simps)
  have "drop_bit 16 (int n) AND 255 = x"
    unfolding n and_255 drop_bit_eq_div using byte_split(1) [OF assms] by simp
  moreover have "drop_bit 8 (int n) AND 255 = y"
    unfolding n and_255 drop_bit_eq_div using byte_split(2) [OF assms] by simp
  moreover have "int n AND 255 = z"
    unfolding n and_255 using byte_split(3) [OF assms] by simp
  ultimately show ?thesis
    by (simp add: hexToRgb_def p Let_def)
qed

subsection \<open>The conversions without rounding\<close>

lemma waveExact_range: "- 1 \<le> waveExact k \<and> waveExact k \<le> 1"
  by (simp add: waveExact_def)

lemma amplitude_range:
  assumes "0 \<le> s" "s \<le> 100" "0 \<le> (m::rat)"
  shows "0 \<le> (s * m) / 100 \<and> (s * m) / 100 \<le> m"
proof -
  have "s * m \<le> 100 * m"
    using assms by (intro mult_right_mono) simp_all
  with assms show ?thesis by simp
qed

lemma quotient_range:
  fixes x d :: rat
  assumes "0 < d" and "- d \<le> x" and "x \<le> d"
  shows "- 1 \<le> x / d \<and> x / d \<le> 1"
  using assms by (simp add: pos_le_divide_eq pos_divide_le_eq)

lemma rgbToHslExact_range:
  assumes "0 \<le> rgb_r c" "rgb_r c \<le> 255" "0 \<le> rgb_g c" "rgb_g c \<le> 255"
    and "0 \<le> rgb_b c" "rgb_b c \<le> 255"
    and "rgbToHslExact c = (h, s, l)"
  shows "0 \<le> h \<and> h < 1 \<and> 0 \<le> s \<and> s \<le> 1 \<and> 0 \<le> l \<and> l \<le> 1"
proof -
  define rr :: rat where "rr = of_int (rgb_r c) / 255"
  define gg :: rat where "gg = of_int (rgb_g c) / 255"
  define bb :: rat where "bb = of_int (rgb_b c) / 255"
  define mx where "mx = max rr (max gg bb)"
  define mn where "mn = min rr (min gg bb)"
  define d where "d = mx - mn"
  have ch: "0 \<le> rr" "rr \<le> 1" "0 \<le> gg" "gg \<le> 1" "0 \<le> bb" "bb \<le> 1"
    using assms(1-6) by (simp_all add: rr_def gg_def bb_def)
  have m: "0 \<le> mn" "mn \<le> mx" "mx \<le> 1" "mn \<le> rr" "mn \<le> gg" "mn \<le> bb"
    "rr \<le> mx" "gg \<le> mx" "bb \<le> mx"
    using ch by (simp_all add: mx_def mn_def)
  have frac: "rgbToHslExact c =
     (if mx = mn then (0, 0, (mx + mn) / 2)
      else ((if mx = rr then (gg - bb) / d + (if gg < bb then 6 else 0)
             else if mx = gg then (bb - rr) / d + 2
             else (rr - gg) / d + 4) / 6,
            (if (mx + mn) / 2 > 1 / 2 then d / (2 - mx - mn) else d / (mx + mn)),
            (mx + mn) / 2))"
    unfolding rgbToHslExact_def Let_def rr_def [symmetric] gg_def [symmetric]
      bb_def [symmetric] mx_def [symmetric] mn_def [symmetric] d_def [symmetric]
    by (rule refl)
  have hsl: "h = fst (rgbToHslExact c)" "s = fst (snd (rgbToHslExact c))" "l = snd (snd (rgbToHslExact c))"
    using assms(7) by simp_all
  have l: "l = (mx + mn) / 2"
    unfolding hsl frac by simp
  have lr: "0 \<le> l \<and> l \<le> 1" using m unfolding l by simp
  show ?thesis
  proof (cases "mx = mn")
    case True
    then have "h = 0" "s = 0"
      unfolding hsl frac by simp_all
    with lr show ?thesis by simp
  next
    case False
    then have dpos: "0 < d" using m by (simp add: d_def)
    have eq: "h = (if mx = rr then (gg - bb) / d + (if gg < bb then 6 else 0)
                 else if mx = gg then (bb - rr) / d + 2
                 else (rr - gg) / d + 4) / 6"
      "s = (if (mx + mn) / 2 > 1 / 2 then d / (2 - mx - mn) else d / (mx + mn))"
      unfolding hsl frac using False by simp_all
    have s: "0 \<le> s \<and> s \<le> 1"
    proof (cases "(mx + mn) / 2 > 1 / 2")
      case True
      have "0 < 2 - mx - mn" using m False by simp
      moreover have "d \<le> 2 - mx - mn" using m by (simp add: d_def)
      ultimately show ?thesis using dpos True by (simp add: eq(2))
    next
      case F: False
      have "0 < mx + mn" using m False by simp
      moreover have "d \<le> mx + mn" using m by (simp add: d_def)
      ultimately show ?thesis using dpos F by (simp add: eq(2))
    qed
    have h: "0 \<le> h \<and> h < 1"
    proof (cases "mx = rr")
      case True
      have q: "- 1 \<le> (gg - bb) / d \<and> (gg - bb) / d \<le> 1"
        using m by (intro quotient_range [OF dpos]) (simp_all add: d_def)
      show ?thesis
      proof (cases "gg < bb")
        case True
        then have "(gg - bb) / d < 0" using dpos by (simp add: divide_neg_pos)
        with q True \<open>mx = rr\<close> show ?thesis by (simp add: eq(1))
      next
        case F: False
        then have "0 \<le> (gg - bb) / d" using dpos by simp
        with q F \<open>mx = rr\<close> show ?thesis by (simp add: eq(1))
      qed
    next
      case nr: False
      show ?thesis
      proof (cases "mx = gg")
        case True
        have q: "- 1 \<le> (bb - rr) / d \<and> (bb - rr) / d \<le> 1"
          using m by (intro quotient_range [OF dpos]) (simp_all add: d_def)
        with nr True show ?thesis by (simp add: eq(1))
      next
        case ng: False
        have q: "- 1 \<le> (rr - gg) / d \<and> (rr - gg) / d \<le> 1"
          using m by (intro quotient_range [OF dpos]) (simp_all add: d_def)
        with nr ng show ?thesis by (simp add: eq(1))
      qed
    qed
    from h s lr show ?thesis by simp
  qed
qed

lemma Math_round_near:
  fixes x :: rat
  shows "\<bar>of_int (Math_round x) - x\<bar> \<le> 1 / 2"
proof -
  have "of_int \<lfloor>x + 1 / 2\<rfloor> \<le> x + 1 / 2" by (rule of_int_floor_le)
  moreover have "x + 1 / 2 < of_int \<lfloor>x + 1 / 2\<rfloor> + 1"
    using floor_correct [of "x + 1 / 2"] by simp
  ultimately show ?thesis unfolding Math_round_def by linarith
qed

lemma Math_round_between:
  fixes x :: rat
  assumes "of_int a \<le> x" and "x \<le> of_int b"
  shows "a \<le> Math_round x \<and> Math_round x \<le> b"
  using assms by (simp add: Math_round_def le_floor_iff floor_le_iff)

lemma Math_round_mono: "x \<le> y \<Longrightarrow> Math_round x \<le> Math_round (y::rat)"
  by (simp add: Math_round_def floor_mono)

lemma js_rem_12_low:
  assumes "0 \<le> y" and "y < 12"
  shows "js_rem y 12 = y"
proof -
  have "\<lfloor>y / 12\<rfloor> = 0" using assms by (simp add: floor_eq_iff)
  with assms show ?thesis by (simp add: js_rem_def Let_def)
qed

lemma js_rem_12_high:
  assumes "12 \<le> y" and "y < 24"
  shows "js_rem y 12 = y - 12"
proof -
  have "\<lfloor>y / 12\<rfloor> = 1" using assms by (simp add: floor_eq_iff)
  with assms show ?thesis by (simp add: js_rem_def Let_def)
qed

lemma waveExact_rem:
  assumes "0 \<le> y" and "y < 24"
  shows "waveExact (js_rem y 12) = (if y < 12 then waveExact y else waveExact (y - 12))"
  using assms by (simp add: js_rem_12_low js_rem_12_high)

lemma waveExact_low_attained:
  assumes "0 \<le> t" and "t \<le> 12"
  shows "waveExact (js_rem (0 + t) 12) = - 1 \<or> waveExact (js_rem (8 + t) 12) = - 1
    \<or> waveExact (js_rem (4 + t) 12) = - 1"
proof -
  have "waveExact (js_rem (0 + t) 12) = (if t < 12 then waveExact t else waveExact (t - 12))"
    using assms by (simp add: waveExact_rem)
  moreover have "waveExact (js_rem (8 + t) 12) = (if 8 + t < 12 then waveExact (8 + t) else waveExact (8 + t - 12))"
    using assms by (intro waveExact_rem) simp_all
  moreover have "waveExact (js_rem (4 + t) 12) = (if 4 + t < 12 then waveExact (4 + t) else waveExact (4 + t - 12))"
    using assms by (intro waveExact_rem) simp_all
  ultimately show ?thesis
    using assms by (simp add: waveExact_def min_def max_def)
qed

lemma waveExact_high_attained:
  assumes "0 \<le> t" and "t \<le> 12"
  shows "waveExact (js_rem (0 + t) 12) = 1 \<or> waveExact (js_rem (8 + t) 12) = 1
    \<or> waveExact (js_rem (4 + t) 12) = 1"
proof -
  have "waveExact (js_rem (0 + t) 12) = (if t < 12 then waveExact t else waveExact (t - 12))"
    using assms by (simp add: waveExact_rem)
  moreover have "waveExact (js_rem (8 + t) 12) = (if 8 + t < 12 then waveExact (8 + t) else waveExact (8 + t - 12))"
    using assms by (intro waveExact_rem) simp_all
  moreover have "waveExact (js_rem (4 + t) 12) = (if 4 + t < 12 then waveExact (4 + t) else waveExact (4 + t - 12))"
    using assms by (intro waveExact_rem) simp_all
  ultimately show ?thesis
    using assms by (simp add: waveExact_def min_def max_def)
qed

lemma hslColorExact_bounds:
  assumes "0 \<le> a"
  shows "l - a \<le> hslColorExact h l a n \<and> hslColorExact h l a n \<le> l + a"
proof -
  define w where "w = waveExact (js_rem (n + h / 30) 12)"
  have w: "- 1 \<le> w" "w \<le> 1" using waveExact_range by (simp_all add: w_def)
  have "a * w \<le> a * 1" using w assms by (intro mult_left_mono) simp_all
  moreover have "a * (- 1) \<le> a * w" using w assms by (intro mult_left_mono) simp_all
  moreover have "hslColorExact h l a n = l - a * w" by (simp add: hslColorExact_def w_def)
  ultimately show ?thesis by simp
qed

lemma hslColorExact_extremes:
  assumes "0 \<le> h" and "h \<le> 360"
  shows "(hslColorExact h l a 0 = l + a \<or> hslColorExact h l a 8 = l + a \<or> hslColorExact h l a 4 = l + a)
    \<and> (hslColorExact h l a 0 = l - a \<or> hslColorExact h l a 8 = l - a \<or> hslColorExact h l a 4 = l - a)"
proof -
  have t: "0 \<le> h / 30" "h / 30 \<le> 12" using assms by simp_all
  from waveExact_low_attained [OF t] waveExact_high_attained [OF t] show ?thesis
    by (auto simp add: hslColorExact_def)
qed

lemma max3_eq:
  fixes x y z M :: "'a::linorder"
  assumes "x \<le> M" "y \<le> M" "z \<le> M" and "x = M \<or> y = M \<or> z = M"
  shows "max x (max y z) = M"
  using assms by (auto simp add: max_def)

lemma min3_eq:
  fixes x y z m :: "'a::linorder"
  assumes "m \<le> x" "m \<le> y" "m \<le> z" and "x = m \<or> y = m \<or> z = m"
  shows "min x (min y z) = m"
  using assms by (auto simp add: min_def)

lemma waveExact_at:
  assumes "0 \<le> y" and "y < 24"
  shows "y \<le> 2 \<or> (10 \<le> y \<and> y \<le> 14) \<or> 22 \<le> y \<Longrightarrow> waveExact (js_rem y 12) = - 1"
    and "(4 \<le> y \<and> y \<le> 8) \<or> (16 \<le> y \<and> y \<le> 20) \<Longrightarrow> waveExact (js_rem y 12) = 1"
    and "2 \<le> y \<and> y \<le> 4 \<Longrightarrow> waveExact (js_rem y 12) = y - 3"
    and "14 \<le> y \<and> y \<le> 16 \<Longrightarrow> waveExact (js_rem y 12) = y - 15"
    and "8 \<le> y \<and> y \<le> 10 \<Longrightarrow> waveExact (js_rem y 12) = 9 - y"
    and "20 \<le> y \<and> y \<le> 22 \<Longrightarrow> waveExact (js_rem y 12) = 21 - y"
proof -
  have r: "waveExact (js_rem y 12) = (if y < 12 then waveExact y else waveExact (y - 12))"
    by (rule waveExact_rem [OF assms])
  show "y \<le> 2 \<or> (10 \<le> y \<and> y \<le> 14) \<or> 22 \<le> y \<Longrightarrow> waveExact (js_rem y 12) = - 1"
    unfolding r unfolding waveExact_def min_def max_def using assms by auto
  show "(4 \<le> y \<and> y \<le> 8) \<or> (16 \<le> y \<and> y \<le> 20) \<Longrightarrow> waveExact (js_rem y 12) = 1"
    unfolding r unfolding waveExact_def min_def max_def using assms by auto
  show "2 \<le> y \<and> y \<le> 4 \<Longrightarrow> waveExact (js_rem y 12) = y - 3"
    unfolding r unfolding waveExact_def min_def max_def using assms by auto
  show "14 \<le> y \<and> y \<le> 16 \<Longrightarrow> waveExact (js_rem y 12) = y - 15"
    unfolding r unfolding waveExact_def min_def max_def using assms by auto
  show "8 \<le> y \<and> y \<le> 10 \<Longrightarrow> waveExact (js_rem y 12) = 9 - y"
    unfolding r unfolding waveExact_def min_def max_def using assms by auto
  show "20 \<le> y \<and> y \<le> 22 \<Longrightarrow> waveExact (js_rem y 12) = 21 - y"
    unfolding r unfolding waveExact_def min_def max_def using assms by auto
qed

lemma waveExact_lipschitz: "\<bar>waveExact x - waveExact y\<bar> \<le> \<bar>x - y\<bar>"
  unfolding waveExact_def min_def max_def by (simp split: if_splits) linarith

lemma waveExact_rem_lipschitz:
  assumes "0 \<le> x" "x < 24" "0 \<le> y" "y < 24"
  shows "\<bar>waveExact (js_rem x 12) - waveExact (js_rem y 12)\<bar> \<le> \<bar>x - y\<bar>"
proof -
  have w0: "waveExact 0 = - 1" "waveExact 12 = - 1" by (simp_all add: waveExact_def)
  have cross: "\<bar>waveExact p - waveExact (q - 12)\<bar> \<le> \<bar>p - q\<bar>" if "p < 12" "12 \<le> q" for p q
  proof -
    have "\<bar>waveExact p - waveExact (q - 12)\<bar> \<le> \<bar>waveExact p - waveExact 12\<bar> + \<bar>waveExact 0 - waveExact (q - 12)\<bar>"
      unfolding w0 by simp
    also have "\<dots> \<le> \<bar>p - 12\<bar> + \<bar>0 - (q - 12)\<bar>"
      by (intro add_mono waveExact_lipschitz)
    also have "\<dots> = \<bar>p - q\<bar>" using that by simp
    finally show ?thesis .
  qed
  show ?thesis
  proof (cases "x < 12")
    case xl: True
    show ?thesis
    proof (cases "y < 12")
      case True
      with xl show ?thesis
        using assms by (simp add: waveExact_rem waveExact_lipschitz)
    next
      case False
      with xl cross [of x y] show ?thesis
        using assms by (simp add: waveExact_rem)
    qed
  next
    case xh: False
    show ?thesis
    proof (cases "y < 12")
      case True
      with xh cross [of y x] show ?thesis
        using assms by (simp add: waveExact_rem abs_minus_commute)
    next
      case False
      with xh waveExact_lipschitz [of "x - 12" "y - 12"] show ?thesis
        using assms by (simp add: waveExact_rem)
    qed
  qed
qed

lemma waveExact_sector_up:
  fixes u :: rat
  assumes "0 \<le> u" and "u \<le> 1"
  shows "waveExact (js_rem (2 * u + 0) 12) = - 1" and "waveExact (js_rem (2 * u + 12) 12) = - 1"
    and "waveExact (js_rem (2 * u + 4) 12) = 1" and "waveExact (js_rem (2 * u + 16) 12) = 1"
    and "waveExact (js_rem (2 * u + 8) 12) = 1 - 2 * u"
proof -
  show "waveExact (js_rem (2 * u + 0) 12) = - 1" using assms by (intro waveExact_at(1)) simp_all
  show "waveExact (js_rem (2 * u + 12) 12) = - 1" using assms by (intro waveExact_at(1)) simp_all
  show "waveExact (js_rem (2 * u + 4) 12) = 1" using assms by (intro waveExact_at(2)) simp_all
  show "waveExact (js_rem (2 * u + 16) 12) = 1" using assms by (intro waveExact_at(2)) simp_all
  have "waveExact (js_rem (2 * u + 8) 12) = 9 - (2 * u + 8)" using assms by (intro waveExact_at(5)) simp_all
  then show "waveExact (js_rem (2 * u + 8) 12) = 1 - 2 * u" by simp
qed

lemma waveExact_sector_down:
  fixes u :: rat
  assumes "- 1 \<le> u" and "u < 0"
  shows "waveExact (js_rem (2 * u + 12) 12) = - 1"
    and "waveExact (js_rem (2 * u + 8) 12) = 1" and "waveExact (js_rem (2 * u + 20) 12) = 1"
    and "waveExact (js_rem (2 * u + 4) 12) = 1 + 2 * u" and "waveExact (js_rem (2 * u + 16) 12) = 1 + 2 * u"
proof -
  show "waveExact (js_rem (2 * u + 12) 12) = - 1" using assms by (intro waveExact_at(1)) simp_all
  show "waveExact (js_rem (2 * u + 8) 12) = 1" using assms by (intro waveExact_at(2)) simp_all
  show "waveExact (js_rem (2 * u + 20) 12) = 1" using assms by (intro waveExact_at(2)) simp_all
  have "waveExact (js_rem (2 * u + 4) 12) = (2 * u + 4) - 3" using assms by (intro waveExact_at(3)) simp_all
  then show "waveExact (js_rem (2 * u + 4) 12) = 1 + 2 * u" by simp
  have "waveExact (js_rem (2 * u + 16) 12) = (2 * u + 16) - 15" using assms by (intro waveExact_at(4)) simp_all
  then show "waveExact (js_rem (2 * u + 16) 12) = 1 + 2 * u" by simp
qed

lemma channel_algebra:
  fixes mx mn d u x :: rat
  assumes "d = mx - mn" and "d \<noteq> 0" and "u = x / d"
  shows "(mx + mn) / 2 - d / 2 * (- 1) = mx"
    and "(mx + mn) / 2 - d / 2 * 1 = mn"
    and "(mx + mn) / 2 - d / 2 * (1 - 2 * u) = mn + x"
    and "(mx + mn) / 2 - d / 2 * (1 + 2 * u) = mn - x"
  using assms by (simp_all add: field_simps)

lemma rgbToHslExact_unfold:
  fixes c :: rgb
  defines "rr \<equiv> of_int (rgb_r c) / 255" and "gg \<equiv> of_int (rgb_g c) / 255"
    and "bb \<equiv> of_int (rgb_b c) / 255"
  defines "mx \<equiv> max rr (max gg bb)" and "mn \<equiv> min rr (min gg bb)"
  shows "rgbToHslExact c =
     (if mx = mn then (0, 0, (mx + mn) / 2)
      else ((if mx = rr then (gg - bb) / (mx - mn) + (if gg < bb then 6 else 0)
             else if mx = gg then (bb - rr) / (mx - mn) + 2
             else (rr - gg) / (mx - mn) + 4) / 6,
            (if (mx + mn) / 2 > 1 / 2 then (mx - mn) / (2 - mx - mn) else (mx - mn) / (mx + mn)),
            (mx + mn) / 2))"
  unfolding rgbToHslExact_def Let_def rr_def gg_def bb_def mx_def mn_def by (rule refl)

lemma chan_up:
  fixes mx mn d u x :: rat
  assumes "d = mx - mn" and "0 < d" and "u = x / d" and "0 \<le> u" and "u \<le> 1"
  shows "(mx + mn) / 2 - d / 2 * waveExact (js_rem (2 * u + 0) 12) = mx"
    and "(mx + mn) / 2 - d / 2 * waveExact (js_rem (2 * u + 12) 12) = mx"
    and "(mx + mn) / 2 - d / 2 * waveExact (js_rem (2 * u + 4) 12) = mn"
    and "(mx + mn) / 2 - d / 2 * waveExact (js_rem (2 * u + 16) 12) = mn"
    and "(mx + mn) / 2 - d / 2 * waveExact (js_rem (2 * u + 8) 12) = mn + x"
proof -
  have d: "d \<noteq> 0" using assms(2) by simp
  note w = waveExact_sector_up [OF assms(4,5)]
  note c = channel_algebra [OF assms(1) d assms(3)]
  show "(mx + mn) / 2 - d / 2 * waveExact (js_rem (2 * u + 0) 12) = mx" unfolding w by (rule c)
  show "(mx + mn) / 2 - d / 2 * waveExact (js_rem (2 * u + 12) 12) = mx" unfolding w by (rule c)
  show "(mx + mn) / 2 - d / 2 * waveExact (js_rem (2 * u + 4) 12) = mn" unfolding w by (rule c)
  show "(mx + mn) / 2 - d / 2 * waveExact (js_rem (2 * u + 16) 12) = mn" unfolding w by (rule c)
  show "(mx + mn) / 2 - d / 2 * waveExact (js_rem (2 * u + 8) 12) = mn + x" unfolding w by (rule c)
qed

lemma chan_down:
  fixes mx mn d u x :: rat
  assumes "d = mx - mn" and "0 < d" and "u = x / d" and "- 1 \<le> u" and "u < 0"
  shows "(mx + mn) / 2 - d / 2 * waveExact (js_rem (2 * u + 12) 12) = mx"
    and "(mx + mn) / 2 - d / 2 * waveExact (js_rem (2 * u + 8) 12) = mn"
    and "(mx + mn) / 2 - d / 2 * waveExact (js_rem (2 * u + 20) 12) = mn"
    and "(mx + mn) / 2 - d / 2 * waveExact (js_rem (2 * u + 4) 12) = mn - x"
    and "(mx + mn) / 2 - d / 2 * waveExact (js_rem (2 * u + 16) 12) = mn - x"
proof -
  have d: "d \<noteq> 0" using assms(2) by simp
  note w = waveExact_sector_down [OF assms(4,5)]
  note c = channel_algebra [OF assms(1) d assms(3)]
  show "(mx + mn) / 2 - d / 2 * waveExact (js_rem (2 * u + 12) 12) = mx" unfolding w by (rule c)
  show "(mx + mn) / 2 - d / 2 * waveExact (js_rem (2 * u + 8) 12) = mn" unfolding w by (rule c)
  show "(mx + mn) / 2 - d / 2 * waveExact (js_rem (2 * u + 20) 12) = mn" unfolding w by (rule c)
  show "(mx + mn) / 2 - d / 2 * waveExact (js_rem (2 * u + 4) 12) = mn - x" unfolding w by (rule c)
  show "(mx + mn) / 2 - d / 2 * waveExact (js_rem (2 * u + 16) 12) = mn - x" unfolding w by (rule c)
qed

lemma hsl_exact:
  fixes c :: rgb
  assumes "0 \<le> rgb_r c" "rgb_r c \<le> 255" "0 \<le> rgb_g c" "rgb_g c \<le> 255"
    and "0 \<le> rgb_b c" "rgb_b c \<le> 255"
    and f: "rgbToHslExact c = (h, s, l)"
  shows "l - (s * min l (1 - l)) * waveExact (js_rem (0 + 12 * h) 12) = of_int (rgb_r c) / 255"
    and "l - (s * min l (1 - l)) * waveExact (js_rem (8 + 12 * h) 12) = of_int (rgb_g c) / 255"
    and "l - (s * min l (1 - l)) * waveExact (js_rem (4 + 12 * h) 12) = of_int (rgb_b c) / 255"
proof -
  define rr :: rat where "rr = of_int (rgb_r c) / 255"
  define gg :: rat where "gg = of_int (rgb_g c) / 255"
  define bb :: rat where "bb = of_int (rgb_b c) / 255"
  define mx where "mx = max rr (max gg bb)"
  define mn where "mn = min rr (min gg bb)"
  define d where "d = mx - mn"
  have ch: "0 \<le> rr" "rr \<le> 1" "0 \<le> gg" "gg \<le> 1" "0 \<le> bb" "bb \<le> 1"
    using assms(1-6) by (simp_all add: rr_def gg_def bb_def)
  have m: "0 \<le> mn" "mn \<le> mx" "mx \<le> 1" "mn \<le> rr" "mn \<le> gg" "mn \<le> bb"
    "rr \<le> mx" "gg \<le> mx" "bb \<le> mx"
    using ch by (simp_all add: mx_def mn_def)
  have frac: "rgbToHslExact c =
     (if mx = mn then (0, 0, (mx + mn) / 2)
      else ((if mx = rr then (gg - bb) / d + (if gg < bb then 6 else 0)
             else if mx = gg then (bb - rr) / d + 2
             else (rr - gg) / d + 4) / 6,
            (if (mx + mn) / 2 > 1 / 2 then d / (2 - mx - mn) else d / (mx + mn)),
            (mx + mn) / 2))"
    unfolding rr_def gg_def bb_def mx_def mn_def d_def by (rule rgbToHslExact_unfold)
  have hsl: "h = fst (rgbToHslExact c)" "s = fst (snd (rgbToHslExact c))" "l = snd (snd (rgbToHslExact c))"
    using f by simp_all
  have l: "l = (mx + mn) / 2"
    unfolding hsl frac by simp
  have goal: "l - (s * min l (1 - l)) * waveExact (js_rem (0 + 12 * h) 12) = rr
    \<and> l - (s * min l (1 - l)) * waveExact (js_rem (8 + 12 * h) 12) = gg
    \<and> l - (s * min l (1 - l)) * waveExact (js_rem (4 + 12 * h) 12) = bb"
  proof (cases "mx = mn")
    case True
    then have "s = 0" unfolding hsl frac by simp
    moreover have "rr = mx" "gg = mx" "bb = mx" using m True by simp_all
    ultimately show ?thesis using True by (simp add: l)
  next
    case False
    then have dpos: "0 < d" using m by (simp add: d_def)
    have s: "s = (if (mx + mn) / 2 > 1 / 2 then d / (2 - mx - mn) else d / (mx + mn))"
      unfolding hsl frac using False by simp
    have a: "s * min l (1 - l) = d / 2"
    proof (cases "(mx + mn) / 2 > 1 / 2")
      case True
      then have mm: "min l (1 - l) = (2 - mx - mn) / 2" unfolding l by (simp add: min_def field_simps)
      have nz: "2 - mx - mn \<noteq> 0" using m False by simp
      have "s = d / (2 - mx - mn)" using True by (simp add: s)
      then have "s * min l (1 - l) = d / (2 - mx - mn) * ((2 - mx - mn) / 2)" by (simp only: mm)
      also have "\<dots> = d / 2" using nz by simp
      finally show ?thesis .
    next
      case F: False
      then have mm: "min l (1 - l) = (mx + mn) / 2" unfolding l by (simp add: min_def field_simps)
      have nz: "mx + mn \<noteq> 0" using m False by simp
      have "s = d / (mx + mn)" using F by (simp add: s)
      then have "s * min l (1 - l) = d / (mx + mn) * ((mx + mn) / 2)" by (simp only: mm)
      also have "\<dots> = d / 2" using nz by simp
      finally show ?thesis .
    qed
    have h: "12 * h = 2 * (if mx = rr then (gg - bb) / d + (if gg < bb then 6 else 0)
                 else if mx = gg then (bb - rr) / d + 2
                 else (rr - gg) / d + 4)"
      unfolding hsl frac using False by simp
    note dd = d_def dpos
    show ?thesis
    proof (cases "mx = rr")
      case r: True
      define u where "u = (gg - bb) / d"
      have q: "- 1 \<le> u \<and> u \<le> 1"
        unfolding u_def using m by (intro quotient_range [OF dpos]) (simp_all add: d_def)
      show ?thesis
      proof (cases "gg < bb")
        case True
        then have neg: "u < 0" using dpos by (simp add: u_def divide_neg_pos)
        have mn: "mn = gg" using True m r by (simp add: mn_def)
        have y: "0 + 12 * h = 2 * u + 12" "8 + 12 * h = 2 * u + 20" "4 + 12 * h = 2 * u + 16"
          unfolding h using r True by (simp_all add: u_def)
        from q neg have qq: "- 1 \<le> u" "u < 0" by simp_all
        show ?thesis
          unfolding a unfolding l y
          using chan_down(1,3,5) [OF dd u_def qq] r mn by simp
      next
        case F: False
        then have pos: "0 \<le> u" using dpos by (simp add: u_def)
        have mn: "mn = bb" using F m r by (simp add: mn_def)
        have y: "0 + 12 * h = 2 * u + 0" "8 + 12 * h = 2 * u + 8" "4 + 12 * h = 2 * u + 4"
          unfolding h using r F by (simp_all add: u_def)
        from q pos have qq: "0 \<le> u" "u \<le> 1" by simp_all
        show ?thesis
          unfolding a unfolding l y
          using chan_up(1,5,3) [OF dd u_def qq] r mn by simp
      qed
    next
      case nr: False
      show ?thesis
      proof (cases "mx = gg")
        case g: True
        define u where "u = (bb - rr) / d"
        have q: "- 1 \<le> u \<and> u \<le> 1"
          unfolding u_def using m by (intro quotient_range [OF dpos]) (simp_all add: d_def)
        have y: "0 + 12 * h = 2 * u + 4" "8 + 12 * h = 2 * u + 12" "4 + 12 * h = 2 * u + 8"
          unfolding h using nr g by (simp_all add: u_def)
        show ?thesis
        proof (cases "bb < rr")
          case True
          then have neg: "u < 0" using dpos by (simp add: u_def divide_neg_pos)
          have mn: "mn = bb" using True m g by (simp add: mn_def)
          from q neg have qq: "- 1 \<le> u" "u < 0" by simp_all
          show ?thesis
            unfolding a unfolding l y
            using chan_down(4,1,2) [OF dd u_def qq] g mn by simp
        next
          case F: False
          then have pos: "0 \<le> u" using dpos by (simp add: u_def)
          have mn: "mn = rr" using F m g by (simp add: mn_def)
          from q pos have qq: "0 \<le> u" "u \<le> 1" by simp_all
          show ?thesis
            unfolding a unfolding l y
            using chan_up(3,2,5) [OF dd u_def qq] g mn by simp
        qed
      next
        case ng: False
        have b: "mx = bb" using nr ng by (simp add: mx_def max_def split: if_splits)
        define u where "u = (rr - gg) / d"
        have q: "- 1 \<le> u \<and> u \<le> 1"
          unfolding u_def using m by (intro quotient_range [OF dpos]) (simp_all add: d_def)
        have y: "0 + 12 * h = 2 * u + 8" "8 + 12 * h = 2 * u + 16" "4 + 12 * h = 2 * u + 12"
          unfolding h using nr ng by (simp_all add: u_def)
        show ?thesis
        proof (cases "rr < gg")
          case True
          then have neg: "u < 0" using dpos by (simp add: u_def divide_neg_pos)
          have mn: "mn = rr" using True m b by (simp add: mn_def)
          from q neg have qq: "- 1 \<le> u" "u < 0" by simp_all
          show ?thesis
            unfolding a unfolding l y
            using chan_down(2,5,1) [OF dd u_def qq] b mn by simp
        next
          case F: False
          then have pos: "0 \<le> u" using dpos by (simp add: u_def)
          have mn: "mn = gg" using F m b by (simp add: mn_def)
          from q pos have qq: "0 \<le> u" "u \<le> 1" by simp_all
          show ?thesis
            unfolding a unfolding l y
            using chan_up(5,4,2) [OF dd u_def qq] b mn by simp
        qed
      qed
    qed
  qed
  from goal show "l - (s * min l (1 - l)) * waveExact (js_rem (0 + 12 * h) 12) = of_int (rgb_r c) / 255"
    by (simp add: rr_def)
  from goal show "l - (s * min l (1 - l)) * waveExact (js_rem (8 + 12 * h) 12) = of_int (rgb_g c) / 255"
    by (simp add: gg_def)
  from goal show "l - (s * min l (1 - l)) * waveExact (js_rem (4 + 12 * h) 12) = of_int (rgb_b c) / 255"
    by (simp add: bb_def)
qed

lemma product_perturb:
  fixes p p' q q' :: rat
  assumes "\<bar>p' - p\<bar> \<le> e1" and "\<bar>q' - q\<bar> \<le> e2" and "\<bar>q'\<bar> \<le> Q" and "\<bar>p\<bar> \<le> P"
  shows "\<bar>p' * q' - p * q\<bar> \<le> e1 * Q + P * e2"
proof -
  have e: "p' * q' - p * q = (p' - p) * q' + p * (q' - q)"
    by (simp add: algebra_simps)
  have "\<bar>(p' - p) * q'\<bar> \<le> e1 * Q"
    unfolding abs_mult using assms(1,3) by (intro mult_mono) simp_all
  moreover have "\<bar>p * (q' - q)\<bar> \<le> P * e2"
    unfolding abs_mult using assms(2,4) by (intro mult_mono) simp_all
  ultimately show ?thesis
    unfolding e using abs_triangle_ineq [of "(p' - p) * q'" "p * (q' - q)"] by linarith
qed

lemma min_perturb:
  fixes l l' :: rat
  assumes "\<bar>l' - l\<bar> \<le> e"
  shows "\<bar>min l' (1 - l') - min l (1 - l)\<bar> \<le> e"
  using assms unfolding min_def by (simp split: if_splits) linarith

subsection \<open>The binary64 computations next to the exact ones\<close>

lemma rnd_close:
  assumes "\<bar>x - y\<bar> \<le> d" and "\<bar>x\<bar> \<le> 1024"
  shows "\<bar>rnd x - y\<bar> \<le> d + 1 / 1000000000000"
proof -
  have "\<bar>rnd x - x\<bar> \<le> 1 / 1000000000000" using rnd_near [OF assms(2)] by simp
  with assms(1) show ?thesis by linarith
qed

lemma rnd_near': "\<bar>x\<bar> \<le> 1024 \<Longrightarrow> \<bar>rnd x - x\<bar> \<le> 1 / 1000000000000"
  using rnd_near [of x] by simp

lemma wave_bounds: "- 1 \<le> wave k \<and> wave k \<le> 1"
  by (simp add: wave_def)

lemma clip_near:
  fixes p q p' q' e :: rat
  assumes "\<bar>p - p'\<bar> \<le> e" and "\<bar>q - q'\<bar> \<le> e"
  shows "\<bar>max (min p (min q 1)) (- 1) - max (min p' (min q' 1)) (- 1)\<bar> \<le> e"
  using assms by linarith

lemma wave_near:
  assumes "0 \<le> k" and "k \<le> 12"
  shows "\<bar>wave k - waveExact k\<bar> \<le> 1 / 1000000000000"
proof -
  have a: "\<bar>rnd (k - 3) - (k - 3)\<bar> \<le> 1 / 1000000000000"
    using assms by (intro rnd_near') (simp add: abs_le_iff)
  have b: "\<bar>rnd (9 - k) - (9 - k)\<bar> \<le> 1 / 1000000000000"
    using assms by (intro rnd_near') (simp add: abs_le_iff)
  show ?thesis
    unfolding wave_def waveExact_def by (rule clip_near [OF a b])
qed

text \<open>
  The number that \<^verbatim>\<open>hslToHex\<close> rounds to a byte, next to the exact channel formula taken
  with the same value \<open>w\<close> of the wave.
\<close>

lemma hslRawByte_near:
  fixes h s l0 n :: rat
  assumes "0 \<le> s" "s \<le> 100" "0 \<le> l0" "l0 \<le> 100"
  defines "w \<equiv> wave (js_rem (rnd (n + rnd (h / 30))) 12)"
  shows "\<bar>hslRawByte h s l0 n
          - 255 * (l0 / 100 - (s * min (l0 / 100) (1 - l0 / 100)) / 100 * w)\<bar> \<le> 1 / 100000000"
proof -
  define e :: rat where "e = 1 / 1000000000000"
  define le where "le = l0 / 100"
  define me where "me = min le (1 - le)"
  define ae where "ae = (s * me) / 100"
  define l1 where "l1 = rnd (l0 / 100)"
  define ob where "ob = rnd (1 - l1)"
  define mf where "mf = min l1 ob"
  define p where "p = rnd (s * mf)"
  define af where "af = rnd (p / 100)"
  define t where "t = rnd (af * w)"
  define c where "c = rnd (l1 - t)"
  note e = e_def
  have ler: "0 \<le> le" "le \<le> 1" using assms(3,4) by (simp_all add: le_def)
  have mer: "0 \<le> me" "me \<le> 1 / 2" using ler unfolding me_def by linarith+
  have aer: "0 \<le> ae" "ae \<le> 1 / 2"
    using amplitude_range [OF assms(1,2) mer(1)] mer(2) unfolding ae_def by linarith+
  have wr: "\<bar>w\<bar> \<le> 1" using wave_bounds [of "js_rem (rnd (n + rnd (h / 30))) 12"]
    by (simp add: w_def abs_le_iff)
  have l1: "\<bar>l1 - le\<bar> \<le> e"
    unfolding l1_def le_def e_def using assms(3,4) by (intro rnd_near') (simp add: abs_le_iff)
  have ob: "\<bar>ob - (1 - le)\<bar> \<le> 2 * e"
  proof -
    have a: "\<bar>(1 - l1) - (1 - le)\<bar> \<le> e" using l1 by linarith
    have b: "\<bar>1 - l1\<bar> \<le> 1024" using l1 ler e by linarith
    from rnd_close [OF a b] show ?thesis unfolding ob_def using e by linarith
  qed
  have mf: "\<bar>mf - me\<bar> \<le> 2 * e"
    unfolding mf_def me_def using l1 ob e by linarith
  have smf: "\<bar>s * mf - s * me\<bar> \<le> 200 * e"
  proof -
    have "\<bar>s * mf - s * me\<bar> = s * \<bar>mf - me\<bar>"
      using assms(1) by (simp add: abs_mult right_diff_distrib [symmetric])
    also have "\<dots> \<le> 100 * (2 * e)"
      using assms(1,2) mf by (intro mult_mono) simp_all
    finally show ?thesis by simp
  qed
  have sme: "0 \<le> s * me" "s * me \<le> 50"
  proof -
    show "0 \<le> s * me" using assms(1) mer(1) by simp
    have "s * me \<le> 100 * (1 / 2)" using assms(1,2) mer by (intro mult_mono) simp_all
    then show "s * me \<le> 50" by simp
  qed
  have p: "\<bar>p - s * me\<bar> \<le> 201 * e"
  proof -
    have b: "\<bar>s * mf\<bar> \<le> 1024" using smf sme e by linarith
    from rnd_close [OF smf b] show ?thesis unfolding p_def using e by linarith
  qed
  have af: "\<bar>af - ae\<bar> \<le> 4 * e"
  proof -
    have a: "\<bar>p / 100 - ae\<bar> \<le> 3 * e" using p e unfolding ae_def by linarith
    have b: "\<bar>p / 100\<bar> \<le> 1024" using p sme e by linarith
    from rnd_close [OF a b] show ?thesis unfolding af_def using e by linarith
  qed
  have afw: "\<bar>af * w - ae * w\<bar> \<le> 4 * e"
  proof -
    have "\<bar>af * w - ae * w\<bar> = \<bar>af - ae\<bar> * \<bar>w\<bar>"
      by (simp add: abs_mult left_diff_distrib [symmetric])
    also have "\<dots> \<le> (4 * e) * 1" using af wr by (intro mult_mono) simp_all
    finally show ?thesis by simp
  qed
  have aew: "\<bar>ae * w\<bar> \<le> 1 / 2"
  proof -
    have "\<bar>ae * w\<bar> = ae * \<bar>w\<bar>" using aer(1) by (simp add: abs_mult)
    also have "\<dots> \<le> (1 / 2) * 1" using aer wr by (intro mult_mono) simp_all
    finally show ?thesis by simp
  qed
  have t: "\<bar>t - ae * w\<bar> \<le> 5 * e"
  proof -
    have b: "\<bar>af * w\<bar> \<le> 1024" using afw aew e by linarith
    from rnd_close [OF afw b] show ?thesis unfolding t_def using e by linarith
  qed
  define ce where "ce = le - ae * w"
  have cer: "\<bar>ce\<bar> \<le> 2" using ler aew unfolding ce_def by linarith
  have c: "\<bar>c - ce\<bar> \<le> 7 * e"
  proof -
    have a: "\<bar>(l1 - t) - ce\<bar> \<le> 6 * e" using l1 t unfolding ce_def by linarith
    have b: "\<bar>l1 - t\<bar> \<le> 1024" using l1 t ler aew e by linarith
    from rnd_close [OF a b] show ?thesis unfolding c_def using e by linarith
  qed
  have y: "\<bar>rnd (255 * c) - 255 * ce\<bar> \<le> 1786 * e"
  proof -
    have a: "\<bar>255 * c - 255 * ce\<bar> \<le> 1785 * e" using c by linarith
    have b: "\<bar>255 * c\<bar> \<le> 1024" using c cer e by linarith
    from rnd_close [OF a b] show ?thesis using e by linarith
  qed
  have r: "hslRawByte h s l0 n = rnd (255 * c)"
    by (simp add: hslRawByte_def hslColor_def Let_def c_def t_def af_def p_def mf_def ob_def l1_def w_def)
  have "\<bar>rnd (255 * c) - 255 * ce\<bar> \<le> 1 / 100000000"
    using y e by linarith
  then show ?thesis
    unfolding r ce_def le_def ae_def me_def .
qed

lemma hslByte_range:
  assumes "0 \<le> s" "s \<le> 100" "0 \<le> l0" "l0 \<le> 100"
  shows "0 \<le> hslByte h s l0 n \<and> hslByte h s l0 n \<le> 255"
proof -
  define w where "w = wave (js_rem (rnd (n + rnd (h / 30))) 12)"
  define le where "le = l0 / 100"
  define me where "me = min le (1 - le)"
  define ae where "ae = (s * me) / 100"
  have ler: "0 \<le> le" "le \<le> 1" using assms(3,4) by (simp_all add: le_def)
  have mer: "0 \<le> me" "me \<le> le" "me \<le> 1 - le" using ler unfolding me_def by linarith+
  have aer: "0 \<le> ae" "ae \<le> me"
    using amplitude_range [OF assms(1,2) mer(1)] unfolding ae_def by linarith+
  have wr: "- 1 \<le> w" "w \<le> 1" using wave_bounds [of "js_rem (rnd (n + rnd (h / 30))) 12"]
    by (simp_all add: w_def)
  have "ae * w \<le> ae * 1" using wr aer by (intro mult_left_mono) simp_all
  moreover have "ae * (- 1) \<le> ae * w" using wr aer by (intro mult_left_mono) simp_all
  ultimately have aw: "- ae \<le> ae * w" "ae * w \<le> ae" by simp_all
  define ce where "ce = le - ae * w"
  have cer: "0 \<le> ce" "ce \<le> 1" using aw aer mer unfolding ce_def by linarith+
  have "\<bar>hslRawByte h s l0 n - 255 * ce\<bar> \<le> 1 / 100000000"
    using hslRawByte_near [OF assms, of h n]
    unfolding ce_def ae_def me_def le_def w_def by simp
  then have y: "- (1 / 100000000) \<le> hslRawByte h s l0 n" "hslRawByte h s l0 n \<le> 255 + 1 / 100000000"
    using cer by linarith+
  have "0 \<le> \<lfloor>hslRawByte h s l0 n + 1 / 2\<rfloor>" using y(1) by (simp add: le_floor_iff)
  moreover have "\<lfloor>hslRawByte h s l0 n + 1 / 2\<rfloor> \<le> 255" using y(2) by (simp add: floor_le_iff)
  ultimately show ?thesis by (simp add: hslByte_def Math_round_def)
qed

lemma hslToHex_bytes:
  assumes "0 \<le> s" "s \<le> 100" "0 \<le> l0" "l0 \<le> 100"
  shows "hslToHex h s l0 =
     [CHR ''#'',
      hexChar (nat (hslByte h s l0 0) div 16), hexChar (nat (hslByte h s l0 0) mod 16),
      hexChar (nat (hslByte h s l0 8) div 16), hexChar (nat (hslByte h s l0 8) mod 16),
      hexChar (nat (hslByte h s l0 4) div 16), hexChar (nat (hslByte h s l0 4) mod 16)]"
  using hslByte_range [OF assms, of h 0] hslByte_range [OF assms, of h 8] hslByte_range [OF assms, of h 4]
  by (simp add: hslToHex_def Let_def byteString)

lemma hslToHex_shape:
  assumes "0 \<le> s" "s \<le> 100" "0 \<le> l0" "l0 \<le> 100"
  shows "isHexShape (hslToHex h s l0)"
proof -
  have d: "nat i div 16 < 16" if "i \<le> 255" for i :: int using that by simp
  show ?thesis
    using hslByte_range [OF assms, of h 0] hslByte_range [OF assms, of h 8] hslByte_range [OF assms, of h 4]
    by (simp add: hslToHex_bytes [OF assms] isHexShape_def hexChar_lower d)
qed

lemma hexToRgb_hslToHex:
  assumes "0 \<le> s" "s \<le> 100" "0 \<le> l0" "l0 \<le> 100"
  shows "hexToRgb (hslToHex h s l0)
    = \<lparr>rgb_r = hslByte h s l0 0, rgb_g = hslByte h s l0 8, rgb_b = hslByte h s l0 4\<rparr>"
  using hslByte_range [OF assms, of h 0] hslByte_range [OF assms, of h 8] hslByte_range [OF assms, of h 4]
  by (simp add: hslToHex_bytes [OF assms] hexToRgb_bytes)

lemma wave_arg_near:
  fixes h n :: rat
  assumes "0 \<le> h" "h \<le> 360" "0 \<le> n" "n \<le> 8"
  shows "\<bar>wave (js_rem (rnd (n + rnd (h / 30))) 12) - waveExact (js_rem (n + h / 30) 12)\<bar>
          \<le> 3 / 1000000000000"
proof -
  define t where "t = rnd (h / 30)"
  define x where "x = rnd (n + t)"
  define k where "k = js_rem x 12"
  have t0: "0 \<le> t" unfolding t_def using assms(1) by (intro rnd_nonneg) simp
  have t1: "\<bar>t - h / 30\<bar> \<le> 1 / 1000000000000"
    unfolding t_def using assms(1,2) by (intro rnd_near') (simp add: abs_le_iff)
  have x0: "0 \<le> x" unfolding x_def using t0 assms(3) by (intro rnd_nonneg) simp
  have x1: "\<bar>x - (n + h / 30)\<bar> \<le> 2 / 1000000000000"
  proof -
    have a: "\<bar>(n + t) - (n + h / 30)\<bar> \<le> 1 / 1000000000000" using t1 by linarith
    have b: "\<bar>n + t\<bar> \<le> 1024" using t1 t0 assms by linarith
    from rnd_close [OF a b] show ?thesis unfolding x_def by linarith
  qed
  have x2: "x < 24" using x1 assms by linarith
  have y0: "0 \<le> n + h / 30" "n + h / 30 < 24" using assms by simp_all
  have k: "0 \<le> k \<and> k \<le> 12"
  proof (cases "x < 12")
    case True
    then show ?thesis using x0 by (simp add: k_def js_rem_12_low)
  next
    case False
    then show ?thesis using x2 by (simp add: k_def js_rem_12_high)
  qed
  then have a: "\<bar>wave k - waveExact k\<bar> \<le> 1 / 1000000000000"
    by (intro wave_near) simp_all
  have "\<bar>waveExact (js_rem x 12) - waveExact (js_rem (n + h / 30) 12)\<bar> \<le> \<bar>x - (n + h / 30)\<bar>"
    by (rule waveExact_rem_lipschitz [OF x0 x2 y0])
  with a x1 show ?thesis unfolding k_def x_def t_def by linarith
qed

text \<open>
  For a hue between 0 and 360 the number that \<^verbatim>\<open>hslToHex\<close> rounds to a byte is within
  \<open>2 \<times> 10^-8\<close> of 255 times the exact channel.
\<close>

lemma hslRawByte_exact:
  fixes h s l0 n :: rat
  assumes "0 \<le> h" "h \<le> 360" "0 \<le> s" "s \<le> 100" "0 \<le> l0" "l0 \<le> 100" "0 \<le> n" "n \<le> 8"
  shows "\<bar>hslRawByte h s l0 n
          - 255 * hslColorExact h (l0 / 100) ((s * min (l0 / 100) (1 - l0 / 100)) / 100) n\<bar>
          \<le> 2 / 100000000"
proof -
  define wf where "wf = wave (js_rem (rnd (n + rnd (h / 30))) 12)"
  define we where "we = waveExact (js_rem (n + h / 30) 12)"
  define le where "le = l0 / 100"
  define me where "me = min le (1 - le)"
  define ae where "ae = (s * me) / 100"
  have ler: "0 \<le> le" "le \<le> 1" using assms(5,6) by (simp_all add: le_def)
  have mer: "0 \<le> me" "me \<le> 1 / 2" using ler unfolding me_def by linarith+
  have aer: "0 \<le> ae" "ae \<le> 1 / 2"
    using amplitude_range [OF assms(3,4) mer(1)] mer(2) unfolding ae_def by linarith+
  have dw: "\<bar>wf - we\<bar> \<le> 3 / 1000000000000"
    unfolding wf_def we_def by (rule wave_arg_near [OF assms(1,2,7,8)])
  have "\<bar>ae * wf - ae * we\<bar> = ae * \<bar>wf - we\<bar>"
    using aer(1) by (simp add: abs_mult right_diff_distrib [symmetric])
  also have "\<dots> \<le> (1 / 2) * (3 / 1000000000000)"
    using aer dw by (intro mult_mono) simp_all
  finally have da: "\<bar>ae * wf - ae * we\<bar> \<le> 3 / 2000000000000" by simp
  define p where "p = ae * wf"
  define q where "q = ae * we"
  have y: "\<bar>hslRawByte h s l0 n - 255 * (le - p)\<bar> \<le> 1 / 100000000"
    using hslRawByte_near [OF assms(3-6), of h n]
    unfolding p_def ae_def me_def le_def wf_def by simp
  have "\<bar>p - q\<bar> \<le> 3 / 2000000000000" using da by (simp add: p_def q_def)
  with y have "\<bar>hslRawByte h s l0 n - 255 * (le - q)\<bar> \<le> 2 / 100000000"
    unfolding right_diff_distrib by linarith
  then show ?thesis
    by (simp add: hslColorExact_def Let_def q_def ae_def me_def le_def we_def)
qed

subsection \<open>The binary64 computation of \<^verbatim>\<open>hexToHsl\<close> next to the exact one\<close>

lemma grid_near:
  assumes "0 \<le> i" and "i \<le> 255"
  shows "\<bar>rnd (of_int i / 255) - of_int i / 255\<bar> \<le> 1 / 1000000000000"
  using assms by (intro rnd_near') (simp add: abs_le_iff)

lemma grid_less:
  assumes "0 \<le> i" "i \<le> 255" "0 \<le> j" "j \<le> 255" and "i < j"
  shows "rnd (of_int i / 255) < rnd (of_int j / 255)"
proof -
  have "i + 1 \<le> j" using assms(5) by simp
  then have "(of_int (i + 1) :: rat) \<le> of_int j" by (simp only: of_int_le_iff)
  then have "(of_int i :: rat) / 255 + 1 / 255 \<le> of_int j / 255" by simp
  with grid_near [OF assms(1,2)] grid_near [OF assms(3,4)] show ?thesis by linarith
qed

lemma grid_le:
  assumes "0 \<le> i" "i \<le> 255" "0 \<le> j" "j \<le> 255" and "i \<le> j"
  shows "rnd (of_int i / 255) \<le> rnd (of_int j / 255)"
proof (cases "i = j")
  case True
  then show ?thesis by simp
next
  case False
  with assms(5) have "i < j" by simp
  from grid_less [OF assms(1-4) this] show ?thesis by simp
qed

lemma grid_eq_iff:
  assumes "0 \<le> i" "i \<le> 255" "0 \<le> j" "j \<le> 255"
  shows "rnd (of_int i / 255) = rnd (of_int j / 255) \<longleftrightarrow> i = j"
  using grid_less [OF assms(1-4)] grid_less [OF assms(3,4,1,2)]
  by (cases i j rule: linorder_cases) auto

lemma grid_less_iff:
  assumes "0 \<le> i" "i \<le> 255" "0 \<le> j" "j \<le> 255"
  shows "rnd (of_int i / 255) < rnd (of_int j / 255) \<longleftrightarrow> i < j"
  using grid_less [OF assms(1-4)] grid_le [OF assms(3,4,1,2)]
  by (cases "i < j") auto

lemma grid_max:
  assumes "0 \<le> i" "i \<le> 255" "0 \<le> j" "j \<le> 255"
  shows "max (rnd (of_int i / 255)) (rnd (of_int j / 255)) = rnd (of_int (max i j) / 255)"
  using grid_le [OF assms(1-4)] grid_le [OF assms(3,4,1,2)]
  by (cases "i \<le> j") (simp_all add: max_def)

lemma grid_min:
  assumes "0 \<le> i" "i \<le> 255" "0 \<le> j" "j \<le> 255"
  shows "min (rnd (of_int i / 255)) (rnd (of_int j / 255)) = rnd (of_int (min i j) / 255)"
  using grid_le [OF assms(1-4)] grid_le [OF assms(3,4,1,2)]
  by (cases "i \<le> j") (simp_all add: min_def)

lemma div_near:
  fixes n n' D D' a b c :: rat
  assumes "\<bar>n' - n\<bar> \<le> a" and "\<bar>D' - D\<bar> \<le> b" and "\<bar>n\<bar> \<le> D" and "0 < D"
    and "0 < c" and "c \<le> D'"
  shows "\<bar>n' / D' - n / D\<bar> \<le> (a + b) / c"
proof -
  have D': "0 < D'" using assms(5,6) by linarith
  have q: "\<bar>n / D\<bar> \<le> 1" using assms(3,4) by (simp add: abs_le_iff pos_divide_le_eq pos_le_divide_eq)
  have e: "n' / D' - n / D = ((n' - n) - (n / D) * (D' - D)) / D'"
    using D' assms(4) by (simp add: field_simps)
  have "\<bar>(n / D) * (D' - D)\<bar> \<le> 1 * b"
    unfolding abs_mult using q assms(2) by (intro mult_mono) simp_all
  then have "\<bar>(n' - n) - (n / D) * (D' - D)\<bar> \<le> a + b" using assms(1) by linarith
  then have "\<bar>n' / D' - n / D\<bar> \<le> (a + b) / D'"
    unfolding e using D' by (simp add: divide_right_mono)
  also have "\<dots> \<le> (a + b) / c"
  proof -
    have "0 \<le> a + b" using assms(1,2) by linarith
    then show ?thesis using assms(5,6) by (intro divide_left_mono) simp_all
  qed
  finally show ?thesis .
qed

lemma hue_near:
  fixes x y M m :: int and off :: rat
  assumes "0 \<le> m" "m < M" "M \<le> 255" "m \<le> x" "x \<le> M" "m \<le> y" "y \<le> M"
    and "0 \<le> off" "off \<le> 6"
  shows "\<bar>rnd (rnd (rnd (rnd (rnd (rnd (of_int x / 255) - rnd (of_int y / 255))
                 / rnd (rnd (of_int M / 255) - rnd (of_int m / 255))) + off) / 6) * 360)
          - ((of_int x / 255 - of_int y / 255) / (of_int M / 255 - of_int m / 255) + off) / 6 * 360\<bar>
          \<le> 1 / 10000000"
proof -
  define gx where "gx = rnd (of_int x / 255)"
  define gy where "gy = rnd (of_int y / 255)"
  define gM where "gM = rnd (of_int M / 255)"
  define gm where "gm = rnd (of_int m / 255)"
  define ex :: rat where "ex = of_int x / 255"
  define ey :: rat where "ey = of_int y / 255"
  define eM :: rat where "eM = of_int M / 255"
  define em :: rat where "em = of_int m / 255"
  define nf where "nf = rnd (gx - gy)"
  define df where "df = rnd (gM - gm)"
  define qf where "qf = rnd (nf / df)"
  define qe where "qe = (ex - ey) / (eM - em)"
  define h0 where "h0 = rnd (qf + off)"
  define h1 where "h1 = rnd (h0 / 6)"
  have r: "0 \<le> x" "x \<le> 255" "0 \<le> y" "y \<le> 255" "0 \<le> M" "0 \<le> m" "m \<le> 255"
    using assms by linarith+
  have gx: "\<bar>gx - ex\<bar> \<le> 1 / 1000000000000" unfolding gx_def ex_def by (rule grid_near [OF r(1,2)])
  have gy: "\<bar>gy - ey\<bar> \<le> 1 / 1000000000000" unfolding gy_def ey_def by (rule grid_near [OF r(3,4)])
  have gM: "\<bar>gM - eM\<bar> \<le> 1 / 1000000000000" unfolding gM_def eM_def by (rule grid_near [OF r(5) assms(3)])
  have gm: "\<bar>gm - em\<bar> \<le> 1 / 1000000000000" unfolding gm_def em_def by (rule grid_near [OF assms(1) r(7)])
  have exr: "em \<le> ex" "ex \<le> eM" unfolding ex_def em_def eM_def
    using assms(4,5) by (simp_all add: divide_right_mono)
  have eyr: "em \<le> ey" "ey \<le> eM" unfolding ey_def em_def eM_def
    using assms(6,7) by (simp_all add: divide_right_mono)
  have emr: "0 \<le> em" unfolding em_def using assms(1) by simp
  have eMr: "eM \<le> 1" unfolding eM_def using assms(3) by simp
  have "m + 1 \<le> M" using assms(2) by simp
  then have "(of_int (m + 1) :: rat) \<le> of_int M" by (simp only: of_int_le_iff)
  then have gap: "em + 1 / 255 \<le> eM" unfolding em_def eM_def by simp
  have nf: "\<bar>nf - (ex - ey)\<bar> \<le> 3 / 1000000000000"
  proof -
    have a: "\<bar>(gx - gy) - (ex - ey)\<bar> \<le> 2 / 1000000000000" using gx gy by linarith
    have b: "\<bar>gx - gy\<bar> \<le> 1024" using gx gy exr eyr emr eMr by linarith
    from rnd_close [OF a b] show ?thesis unfolding nf_def by linarith
  qed
  have df: "\<bar>df - (eM - em)\<bar> \<le> 3 / 1000000000000"
  proof -
    have a: "\<bar>(gM - gm) - (eM - em)\<bar> \<le> 2 / 1000000000000" using gM gm by linarith
    have b: "\<bar>gM - gm\<bar> \<le> 1024" using gM gm gap emr eMr by linarith
    from rnd_close [OF a b] show ?thesis unfolding df_def by linarith
  qed
  have de: "0 < eM - em" using gap by linarith
  have ne: "\<bar>ex - ey\<bar> \<le> eM - em" using exr eyr by linarith
  have c: "(1 / 256 :: rat) \<le> df" using df gap by linarith
  have dn: "\<bar>nf / df - qe\<bar> \<le> 1536 / 1000000000000"
    using div_near [OF nf df ne de _ c] unfolding qe_def by simp
  have qer: "\<bar>qe\<bar> \<le> 1"
    unfolding qe_def using ne de by (simp add: abs_le_iff pos_divide_le_eq pos_le_divide_eq)
  have qf: "\<bar>qf - qe\<bar> \<le> 1537 / 1000000000000"
  proof -
    have b: "\<bar>nf / df\<bar> \<le> 1024" using dn qer by linarith
    from rnd_close [OF dn b] show ?thesis unfolding qf_def by linarith
  qed
  define te where "te = qe + off"
  have ter: "\<bar>te\<bar> \<le> 7" unfolding te_def using qer assms(8,9) by linarith
  have h0: "\<bar>h0 - te\<bar> \<le> 1538 / 1000000000000"
  proof -
    have a: "\<bar>(qf + off) - (qe + off)\<bar> \<le> 1537 / 1000000000000" using qf by linarith
    have b: "\<bar>qf + off\<bar> \<le> 1024" using qf qer assms(8,9) by linarith
    from rnd_close [OF a b] show ?thesis unfolding h0_def te_def by linarith
  qed
  have h1: "\<bar>h1 - te / 6\<bar> \<le> 258 / 1000000000000"
  proof -
    have a: "\<bar>h0 / 6 - te / 6\<bar> \<le> 257 / 1000000000000" using h0 by linarith
    have b: "\<bar>h0 / 6\<bar> \<le> 1024" using h0 ter by linarith
    from rnd_close [OF a b] show ?thesis unfolding h1_def by linarith
  qed
  have "\<bar>rnd (h1 * 360) - te / 6 * 360\<bar> \<le> 1 / 10000000"
  proof -
    have a: "\<bar>h1 * 360 - te / 6 * 360\<bar> \<le> 92880 / 1000000000000" using h1 by linarith
    have b: "\<bar>h1 * 360\<bar> \<le> 1024" using h1 ter by linarith
    from rnd_close [OF a b] show ?thesis by linarith
  qed
  then show ?thesis
    unfolding h1_def h0_def qf_def nf_def df_def te_def qe_def gx_def gy_def gM_def gm_def
      ex_def ey_def eM_def em_def .
qed

lemma light_near:
  fixes M m :: int
  assumes "0 \<le> m" "m \<le> M" "M \<le> 255"
  defines "lf \<equiv> rnd (rnd (rnd (of_int M / 255) + rnd (of_int m / 255)) / 2)"
    and "le \<equiv> (of_int M / 255 + of_int m / 255) / 2"
  shows "\<bar>lf - le\<bar> \<le> 3 / 1000000000000"
    and "\<bar>rnd (lf * 100) - le * 100\<bar> \<le> 1 / 10000000"
    and "1 / 2 < lf \<Longrightarrow> 255 \<le> M + m"
    and "\<not> 1 / 2 < lf \<Longrightarrow> M + m \<le> 255"
proof -
  define gM where "gM = rnd (of_int M / 255)"
  define gm where "gm = rnd (of_int m / 255)"
  define eM :: rat where "eM = of_int M / 255"
  define em :: rat where "em = of_int m / 255"
  define sf where "sf = rnd (gM + gm)"
  have r: "0 \<le> M" "m \<le> 255" using assms(1-3) by linarith+
  have gM: "\<bar>gM - eM\<bar> \<le> 1 / 1000000000000" unfolding gM_def eM_def by (rule grid_near [OF r(1) assms(3)])
  have gm: "\<bar>gm - em\<bar> \<le> 1 / 1000000000000" unfolding gm_def em_def by (rule grid_near [OF assms(1) r(2)])
  have emr: "0 \<le> em" "em \<le> 1" unfolding em_def using assms(1) r(2) by simp_all
  have eMr: "0 \<le> eM" "eM \<le> 1" unfolding eM_def using assms(3) r(1) by simp_all
  have sf: "\<bar>sf - (eM + em)\<bar> \<le> 3 / 1000000000000"
  proof -
    have a: "\<bar>(gM + gm) - (eM + em)\<bar> \<le> 2 / 1000000000000" using gM gm by linarith
    have b: "\<bar>gM + gm\<bar> \<le> 1024" using gM gm emr eMr by linarith
    from rnd_close [OF a b] show ?thesis unfolding sf_def by linarith
  qed
  have lf: "lf = rnd (sf / 2)" unfolding lf_def sf_def gM_def gm_def by (rule refl)
  have le: "le = (eM + em) / 2" unfolding le_def eM_def em_def by (rule refl)
  define te where "te = eM + em"
  have ter: "0 \<le> te" "te \<le> 2" unfolding te_def using emr eMr by linarith+
  have sf': "\<bar>sf - te\<bar> \<le> 3 / 1000000000000" using sf unfolding te_def .
  have le': "le = te / 2" unfolding le te_def by (rule refl)
  show l: "\<bar>lf - le\<bar> \<le> 3 / 1000000000000"
  proof -
    have a: "\<bar>sf / 2 - te / 2\<bar> \<le> 2 / 1000000000000" using sf' by linarith
    have b: "\<bar>sf / 2\<bar> \<le> 1024" using sf' ter by linarith
    from rnd_close [OF a b] show ?thesis unfolding lf le' by linarith
  qed
  show "\<bar>rnd (lf * 100) - le * 100\<bar> \<le> 1 / 10000000"
  proof -
    have a: "\<bar>lf * 100 - le * 100\<bar> \<le> 300 / 1000000000000" using l by linarith
    have b: "\<bar>lf * 100\<bar> \<le> 1024" using l ter unfolding le' by linarith
    from rnd_close [OF a b] show ?thesis by linarith
  qed
  have te: "te = of_int (M + m) / 255" unfolding te_def eM_def em_def by (simp add: add_divide_distrib)
  show "255 \<le> M + m" if h: "1 / 2 < lf"
  proof (rule ccontr)
    assume "\<not> 255 \<le> M + m"
    then have "M + m \<le> 254" by simp
    then have "(of_int (M + m) :: rat) \<le> of_int 254" by (simp only: of_int_le_iff)
    then have "te \<le> 254 / 255" unfolding te by simp
    with l h show False unfolding le' by linarith
  qed
  show "M + m \<le> 255" if h: "\<not> 1 / 2 < lf"
  proof (rule ccontr)
    assume "\<not> M + m \<le> 255"
    then have "256 \<le> M + m" by simp
    then have "(of_int 256 :: rat) \<le> of_int (M + m)" by (simp only: of_int_le_iff)
    then have "256 / 255 \<le> te" unfolding te by simp
    with l h show False unfolding le' by linarith
  qed
qed

lemma sat_near:
  fixes M m :: int
  assumes "0 \<le> m" "m < M" "M \<le> 255"
  defines "gM \<equiv> rnd (of_int M / 255)" and "gm \<equiv> rnd (of_int m / 255)"
    and "eM \<equiv> of_int M / 255" and "em \<equiv> of_int m / 255"
  shows "\<bar>rnd (rnd (rnd (gM - gm) / rnd (rnd (2 - gM) - gm)) * 100)
           - (eM - em) / (2 - eM - em) * 100\<bar> \<le> 1 / 1000000"
    and "\<bar>rnd (rnd (rnd (gM - gm) / rnd (gM + gm)) * 100)
           - (eM - em) / (eM + em) * 100\<bar> \<le> 1 / 1000000"
proof -
  define df where "df = rnd (gM - gm)"
  define de where "de = eM - em"
  have r: "0 \<le> M" "m \<le> 255" using assms(1-3) by linarith+
  have gM: "\<bar>gM - eM\<bar> \<le> 1 / 1000000000000" unfolding gM_def eM_def by (rule grid_near [OF r(1) assms(3)])
  have gm: "\<bar>gm - em\<bar> \<le> 1 / 1000000000000" unfolding gm_def em_def by (rule grid_near [OF assms(1) r(2)])
  have emr: "0 \<le> em" unfolding em_def using assms(1) by simp
  have eMr: "eM \<le> 1" unfolding eM_def using assms(3) by simp
  have "m + 1 \<le> M" using assms(2) by simp
  then have "(of_int (m + 1) :: rat) \<le> of_int M" by (simp only: of_int_le_iff)
  then have gap: "1 / 255 \<le> de" unfolding de_def em_def eM_def by simp
  have der: "de \<le> 1" unfolding de_def using emr eMr by linarith
  have df: "\<bar>df - de\<bar> \<le> 3 / 1000000000000"
  proof -
    have a: "\<bar>(gM - gm) - de\<bar> \<le> 2 / 1000000000000" using gM gm unfolding de_def by linarith
    have b: "\<bar>gM - gm\<bar> \<le> 1024" using a gap der by linarith
    from rnd_close [OF a b] show ?thesis unfolding df_def by linarith
  qed
  have tail: "\<bar>rnd (rnd (df / Df) * 100) - de / De * 100\<bar> \<le> 1 / 1000000"
    if D: "\<bar>Df - De\<bar> \<le> 4 / 1000000000000" and dD: "de \<le> De" for Df De
  proof -
    have De: "0 < De" using dD gap by linarith
    have n: "\<bar>de\<bar> \<le> De" using dD gap by linarith
    have c: "(1 / 256 :: rat) \<le> Df" using D dD gap by linarith
    have dn: "\<bar>df / Df - de / De\<bar> \<le> 1792 / 1000000000000"
      using div_near [OF df D n De _ c] by simp
    define se where "se = de / De"
    have ser: "\<bar>se\<bar> \<le> 1"
      unfolding se_def using n De by (simp add: abs_le_iff pos_divide_le_eq pos_le_divide_eq)
    have dn': "\<bar>df / Df - se\<bar> \<le> 1792 / 1000000000000" using dn unfolding se_def .
    have sf: "\<bar>rnd (df / Df) - se\<bar> \<le> 1793 / 1000000000000"
    proof -
      have b: "\<bar>df / Df\<bar> \<le> 1024" using dn' ser by linarith
      from rnd_close [OF dn' b] show ?thesis by linarith
    qed
    have a: "\<bar>rnd (df / Df) * 100 - se * 100\<bar> \<le> 179300 / 1000000000000" using sf by linarith
    have b: "\<bar>rnd (df / Df) * 100\<bar> \<le> 1024" using sf ser by linarith
    from rnd_close [OF a b] show ?thesis unfolding se_def by linarith
  qed
  have hi: "\<bar>rnd (rnd (2 - gM) - gm) - (2 - eM - em)\<bar> \<le> 4 / 1000000000000"
  proof -
    have a: "\<bar>(2 - gM) - (2 - eM)\<bar> \<le> 1 / 1000000000000" using gM by linarith
    have b: "\<bar>2 - gM\<bar> \<le> 1024" using gM gap emr eMr unfolding de_def by linarith
    have t: "\<bar>rnd (2 - gM) - (2 - eM)\<bar> \<le> 2 / 1000000000000" using rnd_close [OF a b] by linarith
    have a': "\<bar>(rnd (2 - gM) - gm) - (2 - eM - em)\<bar> \<le> 3 / 1000000000000" using t gm by linarith
    have b': "\<bar>rnd (2 - gM) - gm\<bar> \<le> 1024" using a' gap emr eMr unfolding de_def by linarith
    from rnd_close [OF a' b'] show ?thesis by linarith
  qed
  have lo: "\<bar>rnd (gM + gm) - (eM + em)\<bar> \<le> 4 / 1000000000000"
  proof -
    have a: "\<bar>(gM + gm) - (eM + em)\<bar> \<le> 2 / 1000000000000" using gM gm by linarith
    have b: "\<bar>gM + gm\<bar> \<le> 1024" using a gap emr eMr unfolding de_def by linarith
    from rnd_close [OF a b] show ?thesis by linarith
  qed
  have "de \<le> 2 - eM - em" unfolding de_def using eMr by linarith
  from tail [OF hi this]
  show "\<bar>rnd (rnd (rnd (gM - gm) / rnd (rnd (2 - gM) - gm)) * 100)
           - (eM - em) / (2 - eM - em) * 100\<bar> \<le> 1 / 1000000"
    unfolding df_def de_def .
  have "de \<le> eM + em" unfolding de_def using emr by linarith
  from tail [OF lo this]
  show "\<bar>rnd (rnd (rnd (gM - gm) / rnd (gM + gm)) * 100)
           - (eM - em) / (eM + em) * 100\<bar> \<le> 1 / 1000000"
    unfolding df_def de_def .
qed

lemma of_int_max_div: "max (of_int x / 255) (of_int y / 255) = (of_int (max x y) / 255 :: rat)"
  by (simp add: max_def divide_right_mono)

lemma of_int_min_div: "min (of_int x / 255) (of_int y / 255) = (of_int (min x y) / 255 :: rat)"
  by (simp add: min_def divide_right_mono)

lemma sat_exact:
  fixes eM em :: rat
  defines "se \<equiv> (if (eM + em) / 2 > 1 / 2 then (eM - em) / (2 - eM - em) else (eM - em) / (eM + em))"
  shows "1 \<le> eM + em \<Longrightarrow> se = (eM - em) / (2 - eM - em)"
    and "eM + em \<le> 1 \<Longrightarrow> se = (eM - em) / (eM + em)"
proof -
  show "se = (eM - em) / (2 - eM - em)" if "1 \<le> eM + em"
  proof (cases "eM + em = 1")
    case True
    then have "2 - eM - em = eM + em" by linarith
    then show ?thesis unfolding se_def by simp
  next
    case False
    with that have "1 < eM + em" by simp
    then have "(eM + em) / 2 > 1 / 2" by simp
    then show ?thesis unfolding se_def by simp
  qed
  show "se = (eM - em) / (eM + em)" if "eM + em \<le> 1"
  proof -
    from that have "\<not> (eM + em) / 2 > 1 / 2" by simp
    then show ?thesis unfolding se_def by simp
  qed
qed

lemma rgbToHslFrac_unfold:
  fixes c :: rgb
  defines "r \<equiv> rgb_r c" and "g \<equiv> rgb_g c" and "b \<equiv> rgb_b c"
  defines "M \<equiv> max r (max g b)" and "m \<equiv> min r (min g b)"
  defines "gM \<equiv> rnd (of_int M / 255)" and "gm \<equiv> rnd (of_int m / 255)"
  defines "l \<equiv> rnd (rnd (gM + gm) / 2)"
  defines "d \<equiv> rnd (gM - gm)"
  assumes "0 \<le> rgb_r c" "rgb_r c \<le> 255" "0 \<le> rgb_g c" "rgb_g c \<le> 255"
    and "0 \<le> rgb_b c" "rgb_b c \<le> 255"
  shows "rgbToHslFrac c =
     (if M = m then (0, 0, l)
      else (rnd ((if M = r
                  then rnd (rnd (rnd (rnd (of_int g / 255) - rnd (of_int b / 255)) / d)
                         + (if g < b then 6 else 0))
                  else if M = g
                  then rnd (rnd (rnd (rnd (of_int b / 255) - rnd (of_int r / 255)) / d) + 2)
                  else rnd (rnd (rnd (rnd (of_int r / 255) - rnd (of_int g / 255)) / d) + 4)) / 6),
            (if l > 1 / 2 then rnd (d / rnd (rnd (2 - gM) - gm)) else rnd (d / rnd (gM + gm))),
            l))"
proof -
  have rr: "0 \<le> r" "r \<le> 255" and gr: "0 \<le> g" "g \<le> 255" and br: "0 \<le> b" "b \<le> 255"
    using assms(10-15) unfolding r_def g_def b_def by simp_all
  have x: "0 \<le> max g b" "max g b \<le> 255" using gr br by linarith+
  have n: "0 \<le> min g b" "min g b \<le> 255" using gr br by linarith+
  have Mr: "0 \<le> M" "M \<le> 255" unfolding M_def using rr gr br by linarith+
  have mr: "0 \<le> m" "m \<le> 255" unfolding m_def using rr gr br by linarith+
  have mx: "max (rnd (of_int r / 255)) (max (rnd (of_int g / 255)) (rnd (of_int b / 255))) = gM"
    unfolding gM_def M_def by (simp only: grid_max [OF gr br] grid_max [OF rr x])
  have mn: "min (rnd (of_int r / 255)) (min (rnd (of_int g / 255)) (rnd (of_int b / 255))) = gm"
    unfolding gm_def m_def by (simp only: grid_min [OF gr br] grid_min [OF rr n])
  have c1: "(gM = gm) = (M = m)" unfolding gM_def gm_def by (rule grid_eq_iff [OF Mr mr])
  have c2: "(gM = rnd (of_int r / 255)) = (M = r)" unfolding gM_def by (rule grid_eq_iff [OF Mr rr])
  have c3: "(gM = rnd (of_int g / 255)) = (M = g)" unfolding gM_def by (rule grid_eq_iff [OF Mr gr])
  have c4: "(rnd (of_int g / 255) < rnd (of_int b / 255)) = (g < b)" by (rule grid_less_iff [OF gr br])
  show ?thesis
    unfolding rgbToHslFrac_def Let_def r_def [symmetric] g_def [symmetric] b_def [symmetric]
    unfolding mx mn
    unfolding c1 c2 c3 c4 l_def [symmetric] d_def [symmetric]
    by (rule refl)
qed

lemma rgbToHslExact_ints:
  fixes c :: rgb
  defines "r \<equiv> rgb_r c" and "g \<equiv> rgb_g c" and "b \<equiv> rgb_b c"
  defines "M \<equiv> max r (max g b)" and "m \<equiv> min r (min g b)"
  defines "eM \<equiv> of_int M / 255" and "em \<equiv> of_int m / 255"
  shows "rgbToHslExact c =
     (if M = m then (0, 0, (eM + em) / 2)
      else ((if M = r then (of_int g / 255 - of_int b / 255) / (eM - em) + (if g < b then 6 else 0)
             else if M = g then (of_int b / 255 - of_int r / 255) / (eM - em) + 2
             else (of_int r / 255 - of_int g / 255) / (eM - em) + 4) / 6,
            (if (eM + em) / 2 > 1 / 2 then (eM - em) / (2 - eM - em) else (eM - em) / (eM + em)),
            (eM + em) / 2))"
proof -
  have mx: "max (of_int r / 255) (max (of_int g / 255) (of_int b / 255)) = eM"
    unfolding eM_def M_def by (simp only: of_int_max_div)
  have mn: "min (of_int r / 255) (min (of_int g / 255) (of_int b / 255)) = em"
    unfolding em_def m_def by (simp only: of_int_min_div)
  have c1: "(eM = em) = (M = m)" unfolding eM_def em_def by simp
  have c2: "(eM = of_int r / 255) = (M = r)" unfolding eM_def by simp
  have c3: "(eM = of_int g / 255) = (M = g)" unfolding eM_def by simp
  have c4: "((of_int g / 255 :: rat) < of_int b / 255) = (g < b)" by simp
  show ?thesis
    unfolding rgbToHslExact_unfold r_def [symmetric] g_def [symmetric] b_def [symmetric]
    unfolding mx mn
    unfolding c1 c2 c3 c4
    by (rule refl)
qed

text \<open>
  On every colour with bytes in \<open>[0, 255]\<close> the three numbers that \<^verbatim>\<open>hexToHsl\<close> hands to
  \<^verbatim>\<open>Math.round\<close> are within \<open>10\<^sup>-\<^sup>6\<close> of the exact hue, saturation and lightness scaled by
  360, 100 and 100.
\<close>

lemma rgbToHslRaw_near:
  fixes c :: rgb
  assumes "0 \<le> rgb_r c" "rgb_r c \<le> 255" "0 \<le> rgb_g c" "rgb_g c \<le> 255"
    and "0 \<le> rgb_b c" "rgb_b c \<le> 255"
    and raw: "rgbToHslRaw c = (H, S, L)" and ex: "rgbToHslExact c = (he, se, le)"
  shows "\<bar>H - he * 360\<bar> \<le> 1 / 1000000" and "\<bar>S - se * 100\<bar> \<le> 1 / 1000000"
    and "\<bar>L - le * 100\<bar> \<le> 1 / 1000000"
proof -
  define r where "r = rgb_r c"
  define g where "g = rgb_g c"
  define b where "b = rgb_b c"
  define M where "M = max r (max g b)"
  define m where "m = min r (min g b)"
  define gM where "gM = rnd (of_int M / 255)"
  define gm where "gm = rnd (of_int m / 255)"
  define eM :: rat where "eM = of_int M / 255"
  define em :: rat where "em = of_int m / 255"
  define lf where "lf = rnd (rnd (gM + gm) / 2)"
  have rr: "0 \<le> r" "r \<le> 255" and gr: "0 \<le> g" "g \<le> 255" and br: "0 \<le> b" "b \<le> 255"
    using assms(1-6) unfolding r_def g_def b_def by simp_all
  have Mr: "0 \<le> M" "M \<le> 255" unfolding M_def using rr gr br by linarith+
  have mr: "0 \<le> m" "m \<le> 255" unfolding m_def using rr gr br by linarith+
  have mM: "m \<le> M" unfolding m_def M_def by linarith
  have ord: "m \<le> r" "r \<le> M" "m \<le> g" "g \<le> M" "m \<le> b" "b \<le> M"
    unfolding m_def M_def by linarith+
  note F = rgbToHslFrac_unfold [OF assms(1-6), folded r_def g_def b_def, folded M_def m_def,
      folded gM_def gm_def, folded lf_def]
  note E = rgbToHslExact_ints [of c, folded r_def g_def b_def, folded M_def m_def,
      folded eM_def em_def]
  note ln = light_near [OF mr(1) mM Mr(2), folded gM_def gm_def eM_def em_def, folded lf_def]
  have w: "\<bar>x\<bar> \<le> 1 / 10000000 \<Longrightarrow> \<bar>x\<bar> \<le> 1 / 1000000" for x :: rat by simp
  have "\<bar>H - he * 360\<bar> \<le> 1 / 1000000 \<and> \<bar>S - se * 100\<bar> \<le> 1 / 1000000
        \<and> \<bar>L - le * 100\<bar> \<le> 1 / 1000000"
  proof (cases "M = m")
    case True
    have "rgbToHslRaw c = (rnd (0 * 360), rnd (0 * 100), rnd (lf * 100))"
      unfolding rgbToHslRaw_def F if_P [OF True] prod.case by (rule refl)
    then have "(0, 0, rnd (lf * 100)) = (H, S, L)" unfolding raw by (simp add: rnd_zero)
    then have a: "H = 0" "S = 0" "L = rnd (lf * 100)" by simp_all
    have "(0, 0, (eM + em) / 2) = (he, se, le)" using ex unfolding E if_P [OF True] .
    then have b: "he = 0" "se = 0" "le = (eM + em) / 2" by simp_all
    show ?thesis unfolding a b using w [OF ln(2)] by simp
  next
    case False
    then have lt: "m < M" using mM by simp
    note sn = sat_near [OF mr(1) lt Mr(2), folded gM_def gm_def eM_def em_def]
    note hn = hue_near [OF mr(1) lt Mr(2), folded gM_def gm_def eM_def em_def]
    define hf where "hf = (if M = r
                  then rnd (rnd (rnd (rnd (of_int g / 255) - rnd (of_int b / 255)) / rnd (gM - gm))
                         + (if g < b then 6 else 0))
                  else if M = g
                  then rnd (rnd (rnd (rnd (of_int b / 255) - rnd (of_int r / 255)) / rnd (gM - gm)) + 2)
                  else rnd (rnd (rnd (rnd (of_int r / 255) - rnd (of_int g / 255)) / rnd (gM - gm)) + 4))"
    define sf where "sf = (if lf > 1 / 2 then rnd (rnd (gM - gm) / rnd (rnd (2 - gM) - gm))
                           else rnd (rnd (gM - gm) / rnd (gM + gm)))"
    define hx where "hx = (if M = r then (of_int g / 255 - of_int b / 255) / (eM - em) + (if g < b then 6 else 0)
             else if M = g then (of_int b / 255 - of_int r / 255) / (eM - em) + 2
             else (of_int r / 255 - of_int g / 255) / (eM - em) + 4)"
    define sx where "sx = (if (eM + em) / 2 > 1 / 2 then (eM - em) / (2 - eM - em) else (eM - em) / (eM + em))"
    have "rgbToHslRaw c = (rnd (rnd (hf / 6) * 360), rnd (sf * 100), rnd (lf * 100))"
      unfolding rgbToHslRaw_def F if_not_P [OF False] prod.case hf_def sf_def by (rule refl)
    then have "(rnd (rnd (hf / 6) * 360), rnd (sf * 100), rnd (lf * 100)) = (H, S, L)"
      unfolding raw by (rule sym)
    then have a: "H = rnd (rnd (hf / 6) * 360)" "S = rnd (sf * 100)" "L = rnd (lf * 100)"
      unfolding prod.inject by blast+
    have "(hx / 6, sx, (eM + em) / 2) = (he, se, le)"
      using ex unfolding E if_not_P [OF False] hx_def sx_def .
    then have b: "he = hx / 6" "se = sx" "le = (eM + em) / 2"
      unfolding prod.inject by blast+
    have te: "eM + em = of_int (M + m) / 255" unfolding eM_def em_def by (simp add: add_divide_distrib)
    have s: "\<bar>rnd (sf * 100) - sx * 100\<bar> \<le> 1 / 1000000"
    proof (cases "1 / 2 < lf")
      case True
      from ln(3) [OF True] have "(of_int 255 :: rat) \<le> of_int (M + m)" by (simp only: of_int_le_iff)
      then have "1 \<le> eM + em" unfolding te by simp
      from sat_exact(1) [OF this] have x: "sx = (eM - em) / (2 - eM - em)" unfolding sx_def .
      have f: "sf = rnd (rnd (gM - gm) / rnd (rnd (2 - gM) - gm))" unfolding sf_def if_P [OF True] by (rule refl)
      show ?thesis unfolding x f by (rule sn(1))
    next
      case False
      from ln(4) [OF False] have "(of_int (M + m) :: rat) \<le> of_int 255" by (simp only: of_int_le_iff)
      then have "eM + em \<le> 1" unfolding te by simp
      from sat_exact(2) [OF this] have x: "sx = (eM - em) / (eM + em)" unfolding sx_def .
      have f: "sf = rnd (rnd (gM - gm) / rnd (gM + gm))" unfolding sf_def if_not_P [OF False] by (rule refl)
      show ?thesis unfolding x f by (rule sn(2))
    qed
    have h: "\<bar>rnd (rnd (hf / 6) * 360) - hx / 6 * 360\<bar> \<le> 1 / 10000000"
    proof (cases "M = r")
      case True
      have o: "0 \<le> (if g < b then 6 else 0 :: rat)" "(if g < b then 6 else 0 :: rat) \<le> 6" by simp_all
      show ?thesis unfolding hf_def hx_def if_P [OF True] by (rule hn [OF ord(3,4) ord(5,6) o])
    next
      case Mr': False
      show ?thesis
      proof (cases "M = g")
        case True
        show ?thesis unfolding hf_def hx_def if_not_P [OF Mr'] if_P [OF True]
          by (rule hn [OF ord(5,6) ord(1,2)]) simp_all
      next
        case False
        show ?thesis unfolding hf_def hx_def if_not_P [OF Mr'] if_not_P [OF False]
          by (rule hn [OF ord(1,2) ord(3,4)]) simp_all
      qed
    qed
    show ?thesis unfolding a b using w [OF h] s w [OF ln(2)] by (intro conjI)
  qed
  then show "\<bar>H - he * 360\<bar> \<le> 1 / 1000000" and "\<bar>S - se * 100\<bar> \<le> 1 / 1000000"
    and "\<bar>L - le * 100\<bar> \<le> 1 / 1000000" by blast+
qed

text \<open>
  Claim C9: for every hue and for saturation and lightness between 0 and 100,
  \<^verbatim>\<open>hslToHex\<close> returns a string of seven characters, a \<^verbatim>\<open>#\<close> followed by six
  lower-case hexadecimal digits; each channel byte it computes lies between 0 and 255.
\<close>

theorem hslToHex_hex_shape:
  assumes "0 \<le> s" and "s \<le> 100" and "0 \<le> l0" and "l0 \<le> 100"
  shows "isHexShape (hslToHex h s l0) \<and> length (hslToHex h s l0) = 7
    \<and> (\<forall>n. 0 \<le> hslByte h s l0 n \<and> hslByte h s l0 n \<le> 255)"
  using hslToHex_shape [OF assms] hslByte_range [OF assms]
  by (simp add: hslToHex_bytes [OF assms])

theorem hslToHex_hex_shape_witness:
  "(0::rat) \<le> 97 \<and> (97::rat) \<le> 100 \<and> (0::rat) \<le> 46 \<and> (46::rat) \<le> 100
   \<and> isHexShape (hslToHex (- 178) 97 46) \<and> length (hslToHex (- 178) 97 46) = 7
   \<and> 0 \<le> hslByte (- 178) 97 46 8 \<and> hslByte (- 178) 97 46 8 \<le> 255"
proof -
  have a: "(0::rat) \<le> 97" and b: "(97::rat) \<le> 100" and c: "(0::rat) \<le> 46" and d: "(46::rat) \<le> 100"
    by simp_all
  from hslToHex_hex_shape [OF a b c d, of "- 178"] show ?thesis by simp
qed

subsection \<open>From a hex colour to hue, saturation and lightness\<close>

lemmas rgb_eval = hexToRgb_def parseInt16_def hexDigit_def

lemma rgb_ff0001: "hexToRgb ''#ff0001'' = \<lparr>rgb_r = 255, rgb_g = 0, rgb_b = 1\<rparr>"
  by (simp add: rgb_eval)

lemma raw_ff0001:
  "(case rgbToHslRaw \<lparr>rgb_r = 255, rgb_g = 0, rgb_b = 1\<rparr> of
      (h, s, l) \<Rightarrow> (Math_round h, Math_round s, Math_round l)) = (360, 100, 50)"
  by code_simp

lemma hsl_ff0001: "hexToHsl ''#ff0001'' = \<lparr>hsl_h = 360, hsl_s = 100, hsl_l = 50\<rparr>"
  using raw_ff0001 unfolding hexToHsl_def rgb_ff0001 by (simp split: prod.splits)


text \<open>
  Claim C4, as stated, fails on the hue: for \<^verbatim>\<open>#ff0001\<close> the hue before rounding is about
  359.76 degrees, and \<^verbatim>\<open>Math.round\<close> gives 360, which is not below 360.
\<close>

theorem hexToHsl_hue_360_counterexample:
  "isHexShape ''#ff0001'' \<and> \<not> hsl_h (hexToHsl ''#ff0001'') < 360"
  by (simp add: hsl_ff0001 shape_eval)

lemma Math_round_slack:
  fixes x y :: rat
  assumes "\<bar>x - y\<bar> \<le> 1 / 1000000" and "0 \<le> y" and "y \<le> of_int b"
  shows "0 \<le> Math_round x \<and> Math_round x \<le> b"
proof -
  have "0 \<le> x + 1 / 2" using assms(1,2) by linarith
  moreover have "x + 1 / 2 < of_int b + 1" using assms(1,3) by linarith
  ultimately show ?thesis by (simp add: Math_round_def le_floor_iff floor_le_iff)
qed

lemma hexToHsl_raw:
  assumes raw: "rgbToHslRaw (hexToRgb hex) = (H, S, L)"
    and ex: "rgbToHslExact (hexToRgb hex) = (he, se, le)"
  shows "0 \<le> hsl_h (hexToHsl hex) \<and> hsl_h (hexToHsl hex) \<le> 360
    \<and> 0 \<le> hsl_s (hexToHsl hex) \<and> hsl_s (hexToHsl hex) \<le> 100
    \<and> 0 \<le> hsl_l (hexToHsl hex) \<and> hsl_l (hexToHsl hex) \<le> 100
    \<and> \<bar>of_int (hsl_h (hexToHsl hex)) - H\<bar> \<le> 1 / 2
    \<and> \<bar>of_int (hsl_s (hexToHsl hex)) - S\<bar> \<le> 1 / 2
    \<and> \<bar>of_int (hsl_l (hexToHsl hex)) - L\<bar> \<le> 1 / 2
    \<and> 0 \<le> he \<and> he < 1 \<and> 0 \<le> se \<and> se \<le> 1 \<and> 0 \<le> le \<and> le \<le> 1
    \<and> \<bar>H - he * 360\<bar> \<le> 1 / 1000000
    \<and> \<bar>S - se * 100\<bar> \<le> 1 / 1000000
    \<and> \<bar>L - le * 100\<bar> \<le> 1 / 1000000"
proof -
  have b: "0 \<le> rgb_r (hexToRgb hex)" "rgb_r (hexToRgb hex) \<le> 255"
    "0 \<le> rgb_g (hexToRgb hex)" "rgb_g (hexToRgb hex) \<le> 255"
    "0 \<le> rgb_b (hexToRgb hex)" "rgb_b (hexToRgb hex) \<le> 255"
    using hexToRgb_range [of hex] by simp_all
  have r: "0 \<le> he" "he < 1" "0 \<le> se" "se \<le> 1" "0 \<le> le" "le \<le> 1"
    using rgbToHslExact_range [OF b ex] by simp_all
  note n = rgbToHslRaw_near [OF b raw ex]
  have e: "hsl_h (hexToHsl hex) = Math_round H" "hsl_s (hexToHsl hex) = Math_round S"
    "hsl_l (hexToHsl hex) = Math_round L"
    by (simp_all add: hexToHsl_def raw)
  have "0 \<le> Math_round H \<and> Math_round H \<le> 360"
    using r by (intro Math_round_slack [OF n(1)]) simp_all
  moreover have "0 \<le> Math_round S \<and> Math_round S \<le> 100"
    using r by (intro Math_round_slack [OF n(2)]) simp_all
  moreover have "0 \<le> Math_round L \<and> Math_round L \<le> 100"
    using r by (intro Math_round_slack [OF n(3)]) simp_all
  ultimately show ?thesis
    unfolding e using r n Math_round_near [of H] Math_round_near [of S] Math_round_near [of L]
    by (intro conjI) simp_all
qed

text \<open>
  Claim C4, amended: for every valid hex colour \<^verbatim>\<open>hexToHsl\<close> returns integers with the
  hue between 0 and 360, both included, and saturation and lightness between 0 and 100.
  Each of them is within one half of the binary64 number that \<^verbatim>\<open>Math.round\<close> receives
  (nearest integer, not truncation), and that number is within \<open>10\<^sup>-\<^sup>6\<close> of the exact value
  of the min/max channel formula in degrees or percent, whose hue is in \<open>[0, 1)\<close> of a turn
  and whose saturation and lightness are in \<open>[0, 1]\<close>.
\<close>

theorem hexToHsl_ranges:
  assumes "isHexShape hex"
  shows "0 \<le> hsl_h (hexToHsl hex) \<and> hsl_h (hexToHsl hex) \<le> 360
    \<and> 0 \<le> hsl_s (hexToHsl hex) \<and> hsl_s (hexToHsl hex) \<le> 100
    \<and> 0 \<le> hsl_l (hexToHsl hex) \<and> hsl_l (hexToHsl hex) \<le> 100
    \<and> (case rgbToHslRaw (hexToRgb hex) of
         (H, S, L) \<Rightarrow>
           \<bar>of_int (hsl_h (hexToHsl hex)) - H\<bar> \<le> 1 / 2
           \<and> \<bar>of_int (hsl_s (hexToHsl hex)) - S\<bar> \<le> 1 / 2
           \<and> \<bar>of_int (hsl_l (hexToHsl hex)) - L\<bar> \<le> 1 / 2
           \<and> (case rgbToHslExact (hexToRgb hex) of
                (he, se, le) \<Rightarrow>
                  0 \<le> he \<and> he < 1 \<and> 0 \<le> se \<and> se \<le> 1 \<and> 0 \<le> le \<and> le \<le> 1
                  \<and> \<bar>H - he * 360\<bar> \<le> 1 / 1000000
                  \<and> \<bar>S - se * 100\<bar> \<le> 1 / 1000000
                  \<and> \<bar>L - le * 100\<bar> \<le> 1 / 1000000))"
proof -
  obtain H S L where raw: "rgbToHslRaw (hexToRgb hex) = (H, S, L)"
    by (cases "rgbToHslRaw (hexToRgb hex)") blast
  obtain he se le where ex: "rgbToHslExact (hexToRgb hex) = (he, se, le)"
    by (cases "rgbToHslExact (hexToRgb hex)") blast
  from hexToHsl_raw [OF raw ex] show ?thesis unfolding raw ex prod.case by blast
qed

lemma exact_ff0001: "rgbToHslExact \<lparr>rgb_r = 255, rgb_g = 0, rgb_b = 1\<rparr> = (1529 / 1530, 1, 1 / 2)"
  by (simp add: rgbToHslExact_def Let_def)

theorem hexToHsl_ranges_witness:
  "isHexShape ''#ff0001''
    \<and> hexToHsl ''#ff0001'' = \<lparr>hsl_h = 360, hsl_s = 100, hsl_l = 50\<rparr>
    \<and> (case rgbToHslRaw (hexToRgb ''#ff0001'') of
         (H, S, L) \<Rightarrow> \<bar>360 - H\<bar> \<le> 1 / 2 \<and> \<bar>H - (1529 / 1530) * 360\<bar> \<le> 1 / 1000000)"
proof -
  have a: "isHexShape ''#ff0001''"
    by (simp add: shape_eval)
  obtain H S L where raw: "rgbToHslRaw (hexToRgb ''#ff0001'') = (H, S, L)"
    by (cases "rgbToHslRaw (hexToRgb ''#ff0001'')") blast
  from hexToHsl_ranges [OF a] have "\<bar>360 - H\<bar> \<le> 1 / 2 \<and> \<bar>H - (1529 / 1530) * 360\<bar> \<le> 1 / 1000000"
    unfolding raw prod.case hsl_ff0001 unfolding rgb_ff0001 exact_ff0001 prod.case by simp
  with a show ?thesis unfolding raw prod.case by (simp add: hsl_ff0001)
qed

subsection \<open>The bytes of \<^verbatim>\<open>hslToHex\<close> and what \<^verbatim>\<open>hexToHsl\<close> reads from them\<close>

lemma hslByte_near_exact:
  fixes h s l0 n :: rat
  assumes "0 \<le> h" "h \<le> 360" "0 \<le> s" "s \<le> 100" "0 \<le> l0" "l0 \<le> 100" "0 \<le> n" "n \<le> 8"
  shows "\<bar>of_int (hslByte h s l0 n)
          - 255 * hslColorExact h (l0 / 100) ((s * min (l0 / 100) (1 - l0 / 100)) / 100) n\<bar>
          \<le> 1 / 2 + 2 / 100000000"
  using hslRawByte_exact [OF assms] Math_round_near [of "hslRawByte h s l0 n"]
  unfolding hslByte_def by linarith

lemma hslByte_extremes:
  fixes h s l0 :: rat
  assumes "0 \<le> h" "h \<le> 360" "0 \<le> s" "s \<le> 100" "0 \<le> l0" "l0 \<le> 100"
  defines "l \<equiv> l0 / 100"
  defines "a \<equiv> (s * min l (1 - l)) / 100"
  defines "M \<equiv> max (hslByte h s l0 0) (max (hslByte h s l0 8) (hslByte h s l0 4))"
    and "m \<equiv> min (hslByte h s l0 0) (min (hslByte h s l0 8) (hslByte h s l0 4))"
  shows "\<bar>of_int M - 255 * (l + a)\<bar> \<le> 1 / 2 + 2 / 100000000"
    and "\<bar>of_int m - 255 * (l - a)\<bar> \<le> 1 / 2 + 2 / 100000000"
proof -
  define c where "c = (\<lambda>n. hslColorExact h l a n)"
  define y :: "rat \<Rightarrow> rat" where "y = (\<lambda>n. of_int (hslByte h s l0 n))"
  have lr: "0 \<le> l" "l \<le> 1" using assms(5,6) by (simp_all add: l_def)
  have "0 \<le> min l (1 - l)" using lr by simp
  from amplitude_range [OF assms(3,4) this] have a0: "0 \<le> a" unfolding a_def by simp
  have n: "\<bar>y n - 255 * c n\<bar> \<le> 1 / 2 + 2 / 100000000" if "0 \<le> n" "n \<le> 8" for n
    using hslByte_near_exact [OF assms(1-6) that] unfolding y_def c_def l_def a_def .
  have n0: "\<bar>y 0 - 255 * c 0\<bar> \<le> 1 / 2 + 2 / 100000000" by (rule n) simp_all
  have n8: "\<bar>y 8 - 255 * c 8\<bar> \<le> 1 / 2 + 2 / 100000000" by (rule n) simp_all
  have n4: "\<bar>y 4 - 255 * c 4\<bar> \<le> 1 / 2 + 2 / 100000000" by (rule n) simp_all
  have b: "l - a \<le> c k" "c k \<le> l + a" for k
    using hslColorExact_bounds [OF a0, of l h k] unfolding c_def by simp_all
  note b0 = b [of 0] and b8 = b [of 8] and b4 = b [of 4]
  have e: "c 0 = l + a \<or> c 8 = l + a \<or> c 4 = l + a" "c 0 = l - a \<or> c 8 = l - a \<or> c 4 = l - a"
    using hslColorExact_extremes [OF assms(1,2), of l a] unfolding c_def by blast+
  have M: "of_int M = max (y 0) (max (y 8) (y 4))" unfolding M_def y_def by (simp only: of_int_max)
  have m: "of_int m = min (y 0) (min (y 8) (y 4))" unfolding m_def y_def by (simp only: of_int_min)
  define X where "X = l + a"
  define Y where "Y = l - a"
  note f = n0 n8 n4 b0 b8 b4
  show "\<bar>of_int M - 255 * (l + a)\<bar> \<le> 1 / 2 + 2 / 100000000"
    unfolding M X_def [symmetric] using e(1) f unfolding X_def [symmetric] Y_def [symmetric]
    by (elim disjE) linarith+
  show "\<bar>of_int m - 255 * (l - a)\<bar> \<le> 1 / 2 + 2 / 100000000"
    unfolding m Y_def [symmetric] using e(2) f unfolding X_def [symmetric] Y_def [symmetric]
    by (elim disjE) linarith+
qed

lemma byte_candidates:
  fixes M N :: int
  assumes "\<bar>of_int M - 255 * (of_int N / 10000 :: rat)\<bar> \<le> 1 / 2 + 2 / 100000000"
  shows "M = (51 * N + 1000) div 2000
    \<or> (M = (51 * N + 1000) div 2000 - 1 \<and> (51 * N + 1000) mod 2000 = 0)"
proof -
  define T where "T = 51 * N + 1000"
  define q where "q = T div 2000"
  define r where "r = T mod 2000"
  define x :: rat where "x = of_int N / 10000"
  define y :: rat where "y = of_int M"
  have x: "of_int N = 10000 * x" unfolding x_def by simp
  have a: "\<bar>y - 255 * x\<bar> \<le> 1 / 2 + 2 / 100000000" using assms unfolding x_def y_def .
  have T: "(of_int T :: rat) = 510000 * x + 1000" unfolding T_def using x by simp
  have "2000 * y < of_int T + 1" using a T by linarith
  then have "(of_int (2000 * M) :: rat) < of_int (T + 1)" unfolding y_def by simp
  then have u: "2000 * M < T + 1" by (simp only: of_int_less_iff)
  have "of_int T - 2001 < 2000 * y" using a T by linarith
  then have "(of_int (T - 2001) :: rat) < of_int (2000 * M)" unfolding y_def by simp
  then have l: "T - 2001 < 2000 * M" by (simp only: of_int_less_iff)
  have d: "T = 2000 * q + r" unfolding q_def r_def by simp
  have r: "0 \<le> r" "r < 2000" unfolding r_def by simp_all
  from u l d r have "M = q \<or> (M = q - 1 \<and> r = 0)" by arith
  then show ?thesis unfolding q_def r_def T_def .
qed

lemma saturation_analytic:
  fixes S L M m :: int
  defines "u \<equiv> min L (100 - L)"
  defines "D \<equiv> (if 255 < M + m then 510 - (M + m) else M + m)"
  assumes M: "\<bar>of_int M - 255 * (of_int (100 * L + S * u) / 10000 :: rat)\<bar> \<le> 1 / 2 + 2 / 100000000"
    and m: "\<bar>of_int m - 255 * (of_int (100 * L - S * u) / 10000 :: rat)\<bar> \<le> 1 / 2 + 2 / 100000000"
  shows "43 \<le> u * (2 * S - 17) \<Longrightarrow> 17 * D < 200 * (M - m)"
    and "78 \<le> u * (193 - 2 * S) \<Longrightarrow> 200 * (M - m) < 193 * D"
proof -
  define q :: rat where "q = of_int (S * u)"
  define rL :: rat where "rL = of_int L"
  define ru :: rat where "ru = of_int u"
  define rM :: rat where "rM = of_int M"
  define rm :: rat where "rm = of_int m"
  define rD :: rat where "rD = of_int D"
  have ru: "ru = min rL (100 - rL)" unfolding ru_def rL_def u_def by (simp add: min_def)
  have rD: "rD = min (rM + rm) (510 - (rM + rm))"
  proof (cases "255 < M + m")
    case True
    then have "(of_int 255 :: rat) < of_int (M + m)" by (simp only: of_int_less_iff)
    then have "255 < rM + rm" unfolding rM_def rm_def by simp
    moreover have "rD = 510 - (rM + rm)" unfolding rD_def D_def rM_def rm_def using True by simp
    ultimately show ?thesis by linarith
  next
    case False
    then have "M + m \<le> 255" by simp
    then have "(of_int (M + m) :: rat) \<le> of_int 255" by (simp only: of_int_le_iff)
    then have "rM + rm \<le> 255" unfolding rM_def rm_def by simp
    moreover have "rD = rM + rm" unfolding rD_def D_def rM_def rm_def using False by simp
    ultimately show ?thesis by linarith
  qed
  define xp :: rat where "xp = of_int (100 * L + S * u) / 10000"
  define xm :: rat where "xm = of_int (100 * L - S * u) / 10000"
  have xp: "10000 * xp = 100 * rL + q" unfolding xp_def rL_def q_def by simp
  have xm: "10000 * xm = 100 * rL - q" unfolding xm_def rL_def q_def by simp
  have M': "\<bar>rM - 255 * xp\<bar> \<le> 1 / 2 + 2 / 100000000"
    using M unfolding rM_def xp_def .
  have m': "\<bar>rm - 255 * xm\<bar> \<le> 1 / 2 + 2 / 100000000"
    using m unfolding rm_def xm_def .
  have Mb: "rM \<le> 255 * xp + 1 / 2 + 2 / 100000000" "255 * xp - 1 / 2 - 2 / 100000000 \<le> rM"
    using M' by linarith+
  have mb: "rm \<le> 255 * xm + 1 / 2 + 2 / 100000000" "255 * xm - 1 / 2 - 2 / 100000000 \<le> rm"
    using m' by linarith+
  have s: "rM + rm \<le> 51 / 10 * rL + 1 + 4 / 100000000"
    "51 / 10 * rL - 1 - 4 / 100000000 \<le> rM + rm"
    using Mb mb xp xm by linarith+
  define dd where "dd = rM - rm"
  have d: "51 / 1000 * q - 1 - 4 / 100000000 \<le> dd"
    "dd \<le> 51 / 1000 * q + 1 + 4 / 100000000"
    unfolding dd_def using Mb mb xp xm by linarith+
  have ru_le: "ru \<le> rL" "ru \<le> 100 - rL" unfolding ru by simp_all
  have ru_eq: "ru = rL \<or> ru = 100 - rL" unfolding ru by (simp add: min_def)
  have rD_le: "rD \<le> rM + rm" "rD \<le> 510 - (rM + rm)" unfolding rD by simp_all
  have rD_eq: "rD = rM + rm \<or> rD = 510 - (rM + rm)" unfolding rD by (simp add: min_def)
  have Db1: "rD \<le> 51 / 10 * ru + 1 + 4 / 100000000"
    using ru_eq rD_le s by (elim disjE) linarith+
  have Db2: "51 / 10 * ru - 1 - 4 / 100000000 \<le> rD"
    using rD_eq ru_le s by (elim disjE) linarith+
  note Db = Db1 Db2
  show "17 * D < 200 * (M - m)" if h: "43 \<le> u * (2 * S - 17)"
  proof -
    have "(of_int 43 :: rat) \<le> of_int (u * (2 * S - 17))" using h by (simp only: of_int_le_iff)
    then have "43 \<le> 2 * q - 17 * ru" unfolding q_def ru_def by (simp add: algebra_simps)
    with d Db have "17 * rD < 200 * dd" by linarith
    then have "(of_int (17 * D) :: rat) < of_int (200 * (M - m))"
      unfolding dd_def rD_def rM_def rm_def by simp
    then show ?thesis by (simp only: of_int_less_iff)
  qed
  show "200 * (M - m) < 193 * D" if h: "78 \<le> u * (193 - 2 * S)"
  proof -
    have "(of_int 78 :: rat) \<le> of_int (u * (193 - 2 * S))" using h by (simp only: of_int_le_iff)
    then have "78 \<le> 193 * ru - 2 * q" unfolding q_def ru_def by (simp add: algebra_simps)
    with d Db have "200 * dd < 193 * rD" by linarith
    then have "(of_int (200 * (M - m)) :: rat) < of_int (193 * D)"
      unfolding dd_def rD_def rM_def rm_def by simp
    then show ?thesis by (simp only: of_int_less_iff)
  qed
qed

lemma ball_upto_unroll:
  "(\<forall>x\<in>{a..b::int}. P x) = (if b < a then True else P a \<and> (\<forall>x\<in>{a + 1..b}. P x))"
proof (cases "b < a")
  case True
  then show ?thesis by simp
next
  case False
  then have "{a..b} = insert a {a + 1..b}" by auto
  with False show ?thesis by simp
qed

text \<open>
  The cells of the table of saturations and lightnesses where the bytes are too small for
  the estimate above, checked one by one on the bytes that \<^verbatim>\<open>Math.round\<close> can give there.
\<close>

lemma saturation_table_low:
  "\<forall>S\<in>{10..12::int}. \<forall>L\<in>{5..95::int}.
     (if 42 < min L (100 - L) * (2 * S - 17) then True
      else
       (let Tp = 51 * (100 * L + S * min L (100 - L)) + 1000;
            Tm = 51 * (100 * L - S * min L (100 - L)) + 1000 in
        \<forall>M \<in> set (if Tp mod 2000 = 0 then [Tp div 2000, Tp div 2000 - 1] else [Tp div 2000]).
        \<forall>m \<in> set (if Tm mod 2000 = 0 then [Tm div 2000, Tm div 2000 - 1] else [Tm div 2000]).
          17 * (if 255 < M + m then 510 - (M + m) else M + m) < 200 * (M - m)))"
proof -
  define P :: "int \<Rightarrow> int \<Rightarrow> bool" where "P = (\<lambda>S L.
     (if 42 < min L (100 - L) * (2 * S - 17) then True
      else
       (let Tp = 51 * (100 * L + S * min L (100 - L)) + 1000;
            Tm = 51 * (100 * L - S * min L (100 - L)) + 1000 in
        \<forall>M \<in> set (if Tp mod 2000 = 0 then [Tp div 2000, Tp div 2000 - 1] else [Tp div 2000]).
        \<forall>m \<in> set (if Tm mod 2000 = 0 then [Tm div 2000, Tm div 2000 - 1] else [Tm div 2000]).
          17 * (if 255 < M + m then 510 - (M + m) else M + m) < 200 * (M - m))))"
  have "\<forall>S\<in>{10..12}. \<forall>L\<in>{5..95}. P S L"
    apply (simp add: ball_upto_unroll)
    apply (simp add: P_def Let_def)
    done
  then show ?thesis unfolding P_def .
qed

lemma saturation_table_high:
  "\<forall>S\<in>{89..95::int}. \<forall>L\<in>{5..95::int}.
     (if 77 < min L (100 - L) * (193 - 2 * S) then True
      else
       (let Tp = 51 * (100 * L + S * min L (100 - L)) + 1000;
            Tm = 51 * (100 * L - S * min L (100 - L)) + 1000 in
        \<forall>M \<in> set (if Tp mod 2000 = 0 then [Tp div 2000, Tp div 2000 - 1] else [Tp div 2000]).
        \<forall>m \<in> set (if Tm mod 2000 = 0 then [Tm div 2000, Tm div 2000 - 1] else [Tm div 2000]).
          200 * (M - m) < 193 * (if 255 < M + m then 510 - (M + m) else M + m)))"
proof -
  define P :: "int \<Rightarrow> int \<Rightarrow> bool" where "P = (\<lambda>S L.
     (if 77 < min L (100 - L) * (193 - 2 * S) then True
      else
       (let Tp = 51 * (100 * L + S * min L (100 - L)) + 1000;
            Tm = 51 * (100 * L - S * min L (100 - L)) + 1000 in
        \<forall>M \<in> set (if Tp mod 2000 = 0 then [Tp div 2000, Tp div 2000 - 1] else [Tp div 2000]).
        \<forall>m \<in> set (if Tm mod 2000 = 0 then [Tm div 2000, Tm div 2000 - 1] else [Tm div 2000]).
          200 * (M - m) < 193 * (if 255 < M + m then 510 - (M + m) else M + m))))"
  have "\<forall>S\<in>{89..95}. \<forall>L\<in>{5..95}. P S L"
    apply (simp add: ball_upto_unroll)
    apply (simp add: P_def Let_def)
    done
  then show ?thesis unfolding P_def .
qed

lemma variant_saturation_ints:
  fixes S L M m :: int
  assumes "10 \<le> S" "S \<le> 95" "5 \<le> L" "L \<le> 95"
    and M: "\<bar>of_int M - 255 * (of_int (100 * L + S * min L (100 - L)) / 10000 :: rat)\<bar>
             \<le> 1 / 2 + 2 / 100000000"
    and m: "\<bar>of_int m - 255 * (of_int (100 * L - S * min L (100 - L)) / 10000 :: rat)\<bar>
             \<le> 1 / 2 + 2 / 100000000"
  shows "17 * (if 255 < M + m then 510 - (M + m) else M + m) < 200 * (M - m)"
    and "200 * (M - m) < 193 * (if 255 < M + m then 510 - (M + m) else M + m)"
proof -
  define u where "u = min L (100 - L)"
  define Tp where "Tp = 51 * (100 * L + S * u) + 1000"
  define Tm where "Tm = 51 * (100 * L - S * u) + 1000"
  have u: "5 \<le> u" unfolding u_def using assms(3,4) by simp
  have Lr: "L \<in> {5..95}" using assms(3,4) by simp
  note an = saturation_analytic [OF M m, folded u_def]
  have cM: "M \<in> set (if Tp mod 2000 = 0 then [Tp div 2000, Tp div 2000 - 1] else [Tp div 2000])"
    using byte_candidates [OF M] unfolding Tp_def u_def by auto
  have cm: "m \<in> set (if Tm mod 2000 = 0 then [Tm div 2000, Tm div 2000 - 1] else [Tm div 2000])"
    using byte_candidates [OF m] unfolding Tm_def u_def by auto
  show "17 * (if 255 < M + m then 510 - (M + m) else M + m) < 200 * (M - m)"
  proof (cases "43 \<le> u * (2 * S - 17)")
    case True
    then show ?thesis by (rule an(1))
  next
    case False
    have "S \<le> 12"
    proof (rule ccontr)
      assume "\<not> S \<le> 12"
      then have "9 \<le> 2 * S - 17" by simp
      with u have "5 * 9 \<le> u * (2 * S - 17)" by (intro mult_mono) simp_all
      with False show False by simp
    qed
    then have Sr: "S \<in> {10..12}" using assms(1) by simp
    have n: "\<not> 42 < min L (100 - L) * (2 * S - 17)" using False unfolding u_def by simp
    from saturation_table_low [rule_format, OF Sr Lr] cM cm show ?thesis
      unfolding if_not_P [OF n] Let_def Tp_def Tm_def u_def by blast
  qed
  show "200 * (M - m) < 193 * (if 255 < M + m then 510 - (M + m) else M + m)"
  proof (cases "78 \<le> u * (193 - 2 * S)")
    case True
    then show ?thesis by (rule an(2))
  next
    case False
    have "89 \<le> S"
    proof (rule ccontr)
      assume "\<not> 89 \<le> S"
      then have "17 \<le> 193 - 2 * S" by simp
      with u have "5 * 17 \<le> u * (193 - 2 * S)" by (intro mult_mono) simp_all
      with False show False by simp
    qed
    then have Sr: "S \<in> {89..95}" using assms(2) by simp
    have n: "\<not> 77 < min L (100 - L) * (193 - 2 * S)" using False unfolding u_def by simp
    from saturation_table_high [rule_format, OF Sr Lr] cM cm show ?thesis
      unfolding if_not_P [OF n] Let_def Tp_def Tm_def u_def by blast
  qed
qed

lemma min_percent:
  "min (of_int L / 100) (1 - of_int L / 100) = (of_int (min L (100 - L)) / 100 :: rat)"
  by (simp add: min_def)

lemma decoded_bytes:
  fixes h :: rat and S L :: int
  assumes "0 \<le> h" "h \<le> 360" "0 \<le> S" "S \<le> 100" "0 \<le> L" "L \<le> 100"
  defines "c \<equiv> hexToRgb (hslToHex h (of_int S) (of_int L))"
  defines "M \<equiv> max (rgb_r c) (max (rgb_g c) (rgb_b c))"
    and "m \<equiv> min (rgb_r c) (min (rgb_g c) (rgb_b c))"
  shows "\<bar>of_int M - 255 * (of_int (100 * L + S * min L (100 - L)) / 10000 :: rat)\<bar>
           \<le> 1 / 2 + 2 / 100000000"
    and "\<bar>of_int m - 255 * (of_int (100 * L - S * min L (100 - L)) / 10000 :: rat)\<bar>
           \<le> 1 / 2 + 2 / 100000000"
proof -
  have r: "(0::rat) \<le> of_int S" "(of_int S :: rat) \<le> 100" "(0::rat) \<le> of_int L" "(of_int L :: rat) \<le> 100"
    using assms(3-6) by simp_all
  have c: "c = \<lparr>rgb_r = hslByte h (of_int S) (of_int L) 0, rgb_g = hslByte h (of_int S) (of_int L) 8,
                 rgb_b = hslByte h (of_int S) (of_int L) 4\<rparr>"
    unfolding c_def by (rule hexToRgb_hslToHex [OF r])
  have p: "of_int L / 100 + of_int S * (of_int (min L (100 - L)) / 100) / 100
            = (of_int (100 * L + S * min L (100 - L)) / 10000 :: rat)"
    by (simp add: field_simps)
  have q: "of_int L / 100 - of_int S * (of_int (min L (100 - L)) / 100) / 100
            = (of_int (100 * L - S * min L (100 - L)) / 10000 :: rat)"
    by (simp add: field_simps)
  note e = hslByte_extremes [OF assms(1,2) r, unfolded min_percent p q]
  show "\<bar>of_int M - 255 * (of_int (100 * L + S * min L (100 - L)) / 10000 :: rat)\<bar>
           \<le> 1 / 2 + 2 / 100000000"
    unfolding M_def c rgb.select_convs by (rule e(1))
  show "\<bar>of_int m - 255 * (of_int (100 * L - S * min L (100 - L)) / 10000 :: rat)\<bar>
           \<le> 1 / 2 + 2 / 100000000"
    unfolding m_def c rgb.select_convs by (rule e(2))
qed

lemma byte_quotients:
  fixes a b :: rat
  shows "(a / 255 - b / 255) / (2 - a / 255 - b / 255) = (a - b) / (510 - (a + b))"
    and "(a / 255 - b / 255) / (a / 255 + b / 255) = (a - b) / (a + b)"
proof -
  have d: "a / 255 - b / 255 = (a - b) / 255" by (simp add: diff_divide_distrib)
  have s: "a / 255 + b / 255 = (a + b) / 255" by (simp add: add_divide_distrib)
  have t: "2 - a / 255 - b / 255 = (510 - (a + b)) / 255" by (simp add: field_simps)
  have k: "(x / 255) / (y / 255) = x / y" for x y :: rat by simp
  show "(a / 255 - b / 255) / (2 - a / 255 - b / 255) = (a - b) / (510 - (a + b))"
    unfolding d t by (rule k)
  show "(a / 255 - b / 255) / (a / 255 + b / 255) = (a - b) / (a + b)"
    unfolding d s by (rule k)
qed

lemma rgbToHslExact_parts:
  fixes c :: rgb
  defines "M \<equiv> max (rgb_r c) (max (rgb_g c) (rgb_b c))"
    and "m \<equiv> min (rgb_r c) (min (rgb_g c) (rgb_b c))"
  assumes "rgbToHslExact c = (he, se, le)"
  shows "le = (of_int M / 255 + of_int m / 255) / 2"
    and "M \<noteq> m \<Longrightarrow> 255 < M + m \<Longrightarrow> se = of_int (M - m) / of_int (510 - (M + m))"
    and "M \<noteq> m \<Longrightarrow> \<not> 255 < M + m \<Longrightarrow> se = of_int (M - m) / of_int (M + m)"
proof -
  note E = rgbToHslExact_ints [of c, folded M_def m_def]
  show "le = (of_int M / 255 + of_int m / 255) / 2"
  proof (cases "M = m")
    case True
    from assms(3) [unfolded E if_P [OF True]] show ?thesis by simp
  next
    case False
    from assms(3) [unfolded E if_not_P [OF False]] show ?thesis by simp
  qed
  have se: "se = (if (of_int M / 255 + of_int m / 255) / 2 > (1 / 2 :: rat)
                  then (of_int M / 255 - of_int m / 255) / (2 - of_int M / 255 - of_int m / 255)
                  else (of_int M / 255 - of_int m / 255) / (of_int M / 255 + of_int m / 255))"
    if "M \<noteq> m"
    using assms(3) [unfolded E if_not_P [OF that]] unfolding prod.inject by blast
  have s: "of_int M / 255 + of_int m / 255 = (of_int (M + m) / 255 :: rat)"
    by (simp add: add_divide_distrib)
  show "se = of_int (M - m) / of_int (510 - (M + m))" if n: "M \<noteq> m" and g: "255 < M + m"
  proof -
    from g have "(of_int 255 :: rat) < of_int (M + m)" by (simp only: of_int_less_iff)
    then have "(of_int (M + m) / 255 :: rat) / 2 > 1 / 2" by simp
    then have C: "(of_int M / 255 + of_int m / 255) / 2 > (1 / 2 :: rat)" unfolding s .
    show ?thesis unfolding se [OF n] if_P [OF C] byte_quotients by simp
  qed
  show "se = of_int (M - m) / of_int (M + m)" if n: "M \<noteq> m" and g: "\<not> 255 < M + m"
  proof -
    from g have "M + m \<le> 255" by simp
    then have "(of_int (M + m) :: rat) \<le> of_int 255" by (simp only: of_int_le_iff)
    then have "\<not> (of_int (M + m) / 255 :: rat) / 2 > 1 / 2" by simp
    then have C: "\<not> (of_int M / 255 + of_int m / 255) / 2 > (1 / 2 :: rat)" unfolding s .
    show ?thesis unfolding se [OF n] if_not_P [OF C] byte_quotients by simp
  qed
qed

text \<open>
  What \<^verbatim>\<open>hexToHsl\<close> reads from the output of \<^verbatim>\<open>hslToHex\<close>: the lightness is the one that
  was given, for every hue and saturation.
\<close>

lemma decoded_lightness:
  fixes h :: rat and S L :: int
  assumes "0 \<le> h" "h \<le> 360" "0 \<le> S" "S \<le> 100" "0 \<le> L" "L \<le> 100"
  shows "hsl_l (hexToHsl (hslToHex h (of_int S) (of_int L))) = L"
proof -
  define c where "c = hexToRgb (hslToHex h (of_int S) (of_int L))"
  define M where "M = max (rgb_r c) (max (rgb_g c) (rgb_b c))"
  define m where "m = min (rgb_r c) (min (rgb_g c) (rgb_b c))"
  note db = decoded_bytes [OF assms, folded c_def, folded M_def m_def]
  have b: "0 \<le> rgb_r c" "rgb_r c \<le> 255" "0 \<le> rgb_g c" "rgb_g c \<le> 255"
    "0 \<le> rgb_b c" "rgb_b c \<le> 255"
    using hexToRgb_range [of "hslToHex h (of_int S) (of_int L)"] unfolding c_def by simp_all
  obtain H S' L' where raw: "rgbToHslRaw c = (H, S', L')"
    by (cases "rgbToHslRaw c") blast
  obtain he se le where ex: "rgbToHslExact c = (he, se, le)"
    by (cases "rgbToHslExact c") blast
  note n = rgbToHslRaw_near [OF b raw ex]
  note le = rgbToHslExact_parts(1) [OF ex, folded M_def m_def]
  define xp :: rat where "xp = of_int (100 * L + S * min L (100 - L)) / 10000"
  define xm :: rat where "xm = of_int (100 * L - S * min L (100 - L)) / 10000"
  define rM :: rat where "rM = of_int M"
  define rm :: rat where "rm = of_int m"
  define rL :: rat where "rL = of_int L"
  define y where "y = le * 100"
  define q :: rat where "q = of_int (S * min L (100 - L))"
  have xp: "10000 * xp = 100 * rL + q" unfolding xp_def rL_def q_def by simp
  have xm: "10000 * xm = 100 * rL - q" unfolding xm_def rL_def q_def by simp
  have x: "50 * xp + 50 * xm = rL" using xp xm by linarith
  have y: "51 * y = 10 * rM + 10 * rm" unfolding y_def le rM_def rm_def by simp
  have M: "\<bar>rM - 255 * xp\<bar> \<le> 1 / 2 + 2 / 100000000" using db(1) unfolding rM_def xp_def .
  have m: "\<bar>rm - 255 * xm\<bar> \<le> 1 / 2 + 2 / 100000000" using db(2) unfolding rm_def xm_def .
  have L': "\<bar>L' - y\<bar> \<le> 1 / 1000000" using n(3) unfolding y_def .
  have "rL \<le> L' + 1 / 2" "L' + 1 / 2 < rL + 1" using x y M m L' by linarith+
  then have "\<lfloor>L' + 1 / 2\<rfloor> = L" unfolding rL_def by (intro floor_unique) simp_all
  moreover have "hsl_l (hexToHsl (hslToHex h (of_int S) (of_int L))) = Math_round L'"
    using raw unfolding c_def by (simp add: hexToHsl_def)
  ultimately show ?thesis by (simp add: Math_round_def)
qed

text \<open>
  The saturation that \<^verbatim>\<open>hexToHsl\<close> reads from it can leave the interval that was given:
  for a saturation between 10 and 95 and a lightness between 5 and 95 it is between 9 and 96.
\<close>

lemma decoded_saturation:
  fixes h :: rat and S L :: int
  assumes "0 \<le> h" "h \<le> 360" "10 \<le> S" "S \<le> 95" "5 \<le> L" "L \<le> 95"
  shows "9 \<le> hsl_s (hexToHsl (hslToHex h (of_int S) (of_int L)))"
    and "hsl_s (hexToHsl (hslToHex h (of_int S) (of_int L))) \<le> 96"
proof -
  define c where "c = hexToRgb (hslToHex h (of_int S) (of_int L))"
  define M where "M = max (rgb_r c) (max (rgb_g c) (rgb_b c))"
  define m where "m = min (rgb_r c) (min (rgb_g c) (rgb_b c))"
  define D where "D = (if 255 < M + m then 510 - (M + m) else M + m)"
  have r: "0 \<le> S" "S \<le> 100" "0 \<le> L" "L \<le> 100" using assms(3-6) by simp_all
  note db = decoded_bytes [OF assms(1,2) r, folded c_def, folded M_def m_def]
  define dI where "dI = M - m"
  note vs = variant_saturation_ints [OF assms(3-6) db, folded D_def dI_def]
  have b: "0 \<le> rgb_r c" "rgb_r c \<le> 255" "0 \<le> rgb_g c" "rgb_g c \<le> 255"
    "0 \<le> rgb_b c" "rgb_b c \<le> 255"
    using hexToRgb_range [of "hslToHex h (of_int S) (of_int L)"] unfolding c_def by simp_all
  have Mm: "0 \<le> m" "M \<le> 255" "m \<le> M" unfolding M_def m_def using b by linarith+
  have D0: "0 \<le> D" "D \<le> 255" unfolding D_def using Mm by (simp_all split: if_splits)
  have ne: "M \<noteq> m" using vs(1) D0 unfolding dI_def by auto
  have "0 \<le> dI" unfolding dI_def using Mm by simp
  then have Dp: "0 < D" using vs(2) by linarith
  obtain H S' L' where raw: "rgbToHslRaw c = (H, S', L')"
    by (cases "rgbToHslRaw c") blast
  obtain he se le where ex: "rgbToHslExact c = (he, se, le)"
    by (cases "rgbToHslExact c") blast
  note n = rgbToHslRaw_near [OF b raw ex]
  have se: "se = of_int (M - m) / of_int D"
    using rgbToHslExact_parts(2,3) [OF ex, folded M_def m_def, OF ne] unfolding D_def by auto
  define rd :: rat where "rd = of_int dI"
  define rD :: rat where "rD = of_int D"
  have "17 * D + 1 \<le> 200 * dI" using vs(1) by simp
  then have "(of_int (17 * D + 1) :: rat) \<le> of_int (200 * dI)" by (simp only: of_int_le_iff)
  then have lo: "17 * rD + 1 \<le> 200 * rd" unfolding rd_def rD_def by simp
  have "200 * dI + 1 \<le> 193 * D" using vs(2) by simp
  then have "(of_int (200 * dI + 1) :: rat) \<le> of_int (193 * D)" by (simp only: of_int_le_iff)
  then have hi: "200 * rd + 1 \<le> 193 * rD" unfolding rd_def rD_def by simp
  have rD: "0 < rD" "rD \<le> 255" unfolding rD_def using Dp D0 by simp_all
  define y where "y = se * 100"
  have y: "y * rD = 100 * rd" unfolding y_def se dI_def [symmetric] rd_def [symmetric] rD_def [symmetric]
    using rD(1) by simp
  have "8500001 / 1000000 * rD \<le> y * rD" unfolding y using lo rD by linarith
  then have ylo: "8500001 / 1000000 \<le> y" using rD(1) by (simp only: mult_le_cancel_right_pos)
  have "y * rD < 96499999 / 1000000 * rD" unfolding y using hi rD by linarith
  then have yhi: "y < 96499999 / 1000000" using rD(1) by (simp only: mult_less_cancel_right_pos)
  have S': "\<bar>S' - y\<bar> \<le> 1 / 1000000" using n(2) unfolding y_def .
  have e: "hsl_s (hexToHsl (hslToHex h (of_int S) (of_int L))) = \<lfloor>S' + 1 / 2\<rfloor>"
    using raw unfolding c_def by (simp add: hexToHsl_def Math_round_def)
  have "of_int 9 \<le> S' + 1 / 2" using S' ylo by linarith
  then show "9 \<le> hsl_s (hexToHsl (hslToHex h (of_int S) (of_int L)))"
    unfolding e by (simp only: le_floor_iff)
  have "S' + 1 / 2 < of_int 96 + 1" using S' yhi by linarith
  then show "hsl_s (hexToHsl (hslToHex h (of_int S) (of_int L))) \<le> 96"
    unfolding e by (simp only: floor_le_iff)
qed

subsection \<open>The variant of a reference colour\<close>

lemma randomInRange_range:
  assumes "rnd u = u" and "0 \<le> u" and "u < 1" and "lo \<le> hi"
  shows "lo \<le> randomInRange u lo hi \<and> randomInRange u lo hi \<le> hi"
proof -
  define k :: rat where "k = of_int (hi - lo + 1)"
  have k: "1 \<le> k" using assms(4) by (simp add: k_def)
  note b = rnd_scaled_below [OF assms(2) double_below_one [OF assms(1-3)] k]
  have lo: "0 \<le> \<lfloor>rnd (u * k)\<rfloor>" using b by simp
  have "rnd (u * k) < of_int (hi - lo + 1)" using b by (simp add: k_def)
  then have "\<lfloor>rnd (u * k)\<rfloor> < hi - lo + 1" by (simp only: floor_less_iff)
  with lo show ?thesis by (simp add: randomInRange_def k_def)
qed

lemma lightShiftOf_range:
  assumes "rnd u2 = u2" and "0 \<le> u2" and "u2 < 1"
  shows "(12 \<le> lightShiftOf u1 u2 \<and> lightShiftOf u1 u2 \<le> 20)
    \<or> (- 20 \<le> lightShiftOf u1 u2 \<and> lightShiftOf u1 u2 \<le> - 12)"
  using randomInRange_range [OF assms, of 12 20] randomInRange_range [OF assms, of "- 20" "- 12"]
  by (simp add: lightShiftOf_def)

lemma clamp_range: "lo \<le> hi \<Longrightarrow> lo \<le> clamp v lo hi \<and> clamp v lo hi \<le> hi"
  by (simp add: clamp_def)

lemma generateVariantFromHex_eq:
  "generateVariantFromHex hex u1 u2 u3 u4 =
     hslToHex (of_int (hsl_h (hexToHsl hex)))
       (of_int (clamp (hsl_s (hexToHsl hex) + saturationShiftOf u3 u4 (lightShiftOf u1 u2)) 10 95))
       (of_int (clamp (hsl_l (hexToHsl hex) + lightShiftOf u1 u2) 5 95))"
  by (simp add: generateVariantFromHex_def Let_def)

lemma hexToHsl_hue_range: "0 \<le> hsl_h (hexToHsl hex) \<and> hsl_h (hexToHsl hex) \<le> 360"
proof -
  obtain H S L where raw: "rgbToHslRaw (hexToRgb hex) = (H, S, L)"
    by (cases "rgbToHslRaw (hexToRgb hex)") blast
  obtain he se le where ex: "rgbToHslExact (hexToRgb hex) = (he, se, le)"
    by (cases "rgbToHslExact (hexToRgb hex)") blast
  from hexToHsl_raw [OF raw ex] show ?thesis by simp
qed

lemma variant_facts:
  fixes hex :: string and ua ub uc ud :: rat
  assumes "rnd ub = ub" and "0 \<le> ub" and "ub < 1"
  defines "base \<equiv> hexToHsl hex"
  defines "newLightness \<equiv> clamp (hsl_l base + lightShiftOf ua ub) 5 95"
  defines "out \<equiv> generateVariantFromHex hex ua ub uc ud"
  shows "isHexShape out"
    and "hsl_l (hexToHsl out) = newLightness"
    and "9 \<le> hsl_s (hexToHsl out) \<and> hsl_s (hexToHsl out) \<le> 96"
    and "5 \<le> newLightness \<and> newLightness \<le> 95"
proof -
  define newSaturation
    where "newSaturation = clamp (hsl_s base + saturationShiftOf uc ud (lightShiftOf ua ub)) 10 95"
  have s: "10 \<le> newSaturation" "newSaturation \<le> 95"
    using clamp_range [of 10 95] by (simp_all add: newSaturation_def)
  have l: "5 \<le> newLightness" "newLightness \<le> 95"
    using clamp_range [of 5 95] by (simp_all add: newLightness_def)
  from l show "5 \<le> newLightness \<and> newLightness \<le> 95" by simp
  have o: "out = hslToHex (of_int (hsl_h base)) (of_int newSaturation) (of_int newLightness)"
    by (simp add: out_def generateVariantFromHex_eq base_def newSaturation_def newLightness_def)
  have sr: "(0::rat) \<le> of_int newSaturation" "(of_int newSaturation :: rat) \<le> 100"
    using s by simp_all
  have lr: "(0::rat) \<le> of_int newLightness" "(of_int newLightness :: rat) \<le> 100"
    using l by simp_all
  have hr: "(0::rat) \<le> of_int (hsl_h base)" "(of_int (hsl_h base) :: rat) \<le> 360"
    using hexToHsl_hue_range [of hex] by (simp_all add: base_def)
  show "isHexShape out"
    unfolding o by (rule hslToHex_shape [OF sr lr])
  have "0 \<le> newSaturation" "newSaturation \<le> 100" "0 \<le> newLightness" "newLightness \<le> 100"
    using s l by simp_all
  from decoded_lightness [OF hr this] show "hsl_l (hexToHsl out) = newLightness"
    unfolding o .
  from decoded_saturation [OF hr s l]
  show "9 \<le> hsl_s (hexToHsl out) \<and> hsl_s (hexToHsl out) \<le> 96"
    unfolding o by simp
qed

lemma raw_ffffff:
  "(case rgbToHslRaw \<lparr>rgb_r = 255, rgb_g = 255, rgb_b = 255\<rparr> of
      (h, s, l) \<Rightarrow> (Math_round h, Math_round s, Math_round l)) = (0, 0, 100)"
  by code_simp

lemma hsl_ffffff: "hexToHsl ''#ffffff'' = \<lparr>hsl_h = 0, hsl_s = 0, hsl_l = 100\<rparr>"
proof -
  have "hexToRgb ''#ffffff'' = \<lparr>rgb_r = 255, rgb_g = 255, rgb_b = 255\<rparr>"
    by (simp add: rgb_eval)
  with raw_ffffff show ?thesis unfolding hexToHsl_def by (simp split: prod.splits)
qed

lemma raw_404040:
  "(case rgbToHslRaw \<lparr>rgb_r = 64, rgb_g = 64, rgb_b = 64\<rparr> of
      (h, s, l) \<Rightarrow> (Math_round h, Math_round s, Math_round l)) = (0, 0, 25)"
  by code_simp

lemma hsl_404040: "hexToHsl ''#404040'' = \<lparr>hsl_h = 0, hsl_s = 0, hsl_l = 25\<rparr>"
proof -
  have "hexToRgb ''#404040'' = \<lparr>rgb_r = 64, rgb_g = 64, rgb_b = 64\<rparr>"
    by (simp add: rgb_eval)
  with raw_404040 show ?thesis unfolding hexToHsl_def by (simp split: prod.splits)
qed

lemma shift_up: "lightShiftOf (3 / 4) 0 = 12"
  by code_simp

lemma shift_down: "lightShiftOf (1 / 4) (15 / 16) = - 12"
  by code_simp

lemma shift_sat: "saturationShiftOf (3 / 4) (1 / 2) k = 0"
proof -
  have "randomInRange (1 / 2) (- 8) 8 = 0" by code_simp
  then show ?thesis by (simp add: saturationShiftOf_def)
qed

lemma variant_ffffff: "generateVariantFromHex ''#ffffff'' (3 / 4) 0 (3 / 4) (1 / 2) = hslToHex 0 10 95"
  by (simp add: generateVariantFromHex_eq hsl_ffffff shift_up shift_sat clamp_def)

lemma variant_404040: "generateVariantFromHex ''#404040'' (1 / 4) (15 / 16) (3 / 4) (1 / 2) = hslToHex 0 10 13"
  by (simp add: generateVariantFromHex_eq hsl_404040 shift_down shift_sat clamp_def)

lemma bytes_0_10_13: "hslByte 0 10 13 0 = 36" "hslByte 0 10 13 8 = 30" "hslByte 0 10 13 4 = 30"
  by code_simp+

lemma rgb_variant_404040:
  "hexToRgb (hslToHex 0 10 13) = \<lparr>rgb_r = 36, rgb_g = 30, rgb_b = 30\<rparr>"
  by (simp add: hexToRgb_hslToHex bytes_0_10_13)

lemma raw_variant_404040:
  "(case rgbToHslRaw \<lparr>rgb_r = 36, rgb_g = 30, rgb_b = 30\<rparr> of
      (h, s, l) \<Rightarrow> (Math_round h, Math_round s, Math_round l)) = (0, 9, 13)"
  by code_simp

lemma hsl_variant_404040: "hsl_s (hexToHsl (hslToHex 0 10 13)) = 9"
  using raw_variant_404040 unfolding hexToHsl_def rgb_variant_404040 by (simp split: prod.splits)

lemma hsl_l_variant_ffffff: "hsl_l (hexToHsl (hslToHex 0 10 95)) = 95"
  using decoded_lightness [of 0 10 95] by simp

text \<open>
  Claim C2, as stated, fails twice. For the reference \<^verbatim>\<open>#ffffff\<close> (lightness 100) and a
  lightness shift of \<open>+12\<close>, the new lightness is clamped to 95, five away from the
  reference, not twelve. For the reference \<^verbatim>\<open>#404040\<close>, the generator asks for saturation
  10 at lightness 13; the bytes of the output are 36, 30, 30, and decoding them gives
  saturation 9, below 10.
\<close>

theorem generateVariantFromHex_counterexample:
  "isHexShape ''#ffffff''
   \<and> \<not> 12 \<le> \<bar>hsl_l (hexToHsl (generateVariantFromHex ''#ffffff'' (3 / 4) 0 (3 / 4) (1 / 2)))
                - hsl_l (hexToHsl ''#ffffff'')\<bar>
   \<and> isHexShape ''#404040''
   \<and> \<not> 10 \<le> hsl_s (hexToHsl (generateVariantFromHex ''#404040'' (1 / 4) (15 / 16) (3 / 4) (1 / 2)))"
  by (simp add: variant_ffffff variant_404040 hsl_l_variant_ffffff hsl_variant_404040 hsl_ffffff shape_eval)

lemma raw_5468ff:
  "(case rgbToHslRaw \<lparr>rgb_r = 84, rgb_g = 104, rgb_b = 255\<rparr> of
      (h, s, l) \<Rightarrow> (Math_round h, Math_round s, Math_round l)) = (233, 100, 66)"
  by code_simp

lemma hsl_5468ff: "hexToHsl ''#5468ff'' = \<lparr>hsl_h = 233, hsl_s = 100, hsl_l = 66\<rparr>"
proof -
  have "hexToRgb ''#5468ff'' = \<lparr>rgb_r = 84, rgb_g = 104, rgb_b = 255\<rparr>"
    by (simp add: rgb_eval)
  with raw_5468ff show ?thesis unfolding hexToHsl_def by (simp split: prod.splits)
qed

text \<open>
  Claim C2, amended: for every valid reference colour and every four values of
  \<^verbatim>\<open>Math.random()\<close> (of which only the second, which gives the lightness shift, needs to
  be a binary64 number in \<open>[0, 1)\<close>), the output of the generator is a valid hex colour
  which \<^verbatim>\<open>hexToHsl\<close> decodes to a saturation between 9 and 96 and to a lightness
  between 5 and 95; that lightness is the lightness of the reference plus the shift drawn,
  clamped to \<open>[5, 95]\<close>; the shift is between 12 and 20 in absolute value; so the decoded
  lightness differs from the lightness of the reference by at least 12 and at most 20 when
  the latter lies between 17 and 83, and in every case it differs by at least 12 or is one
  of the bounds 5 and 95 of the clamp.
\<close>

theorem generateVariantFromHex_bounds:
  fixes hex :: string and u1 u2 u3 u4 :: rat
  assumes "isHexShape hex"
    and "rnd u2 = u2" "0 \<le> u2" "u2 < 1"
  defines "base \<equiv> hexToHsl hex"
  defines "dec \<equiv> hexToHsl (generateVariantFromHex hex u1 u2 u3 u4)"
  shows "isHexShape (generateVariantFromHex hex u1 u2 u3 u4)
    \<and> 9 \<le> hsl_s dec \<and> hsl_s dec \<le> 96
    \<and> 5 \<le> hsl_l dec \<and> hsl_l dec \<le> 95
    \<and> hsl_l dec = clamp (hsl_l base + lightShiftOf u1 u2) 5 95
    \<and> 12 \<le> \<bar>lightShiftOf u1 u2\<bar> \<and> \<bar>lightShiftOf u1 u2\<bar> \<le> 20
    \<and> (17 \<le> hsl_l base \<and> hsl_l base \<le> 83 \<longrightarrow>
         12 \<le> \<bar>hsl_l dec - hsl_l base\<bar> \<and> \<bar>hsl_l dec - hsl_l base\<bar> \<le> 20)
    \<and> (12 \<le> \<bar>hsl_l dec - hsl_l base\<bar> \<or> hsl_l dec = 5 \<or> hsl_l dec = 95)"
proof -
  note f = variant_facts(1-3) [OF assms(2-4), where hex = hex and ua = u1 and uc = u3 and ud = u4,
      folded base_def, folded dec_def]
    variant_facts(4) [OF assms(2-4), where hex = hex and ua = u1, folded base_def]
  have sh: "12 \<le> \<bar>lightShiftOf u1 u2\<bar> \<and> \<bar>lightShiftOf u1 u2\<bar> \<le> 20"
    using lightShiftOf_range [OF assms(2-4), of u1] by auto
  have d: "hsl_l dec = clamp (hsl_l base + lightShiftOf u1 u2) 5 95" by (rule f(2))
  have a: "17 \<le> hsl_l base \<and> hsl_l base \<le> 83 \<longrightarrow>
         12 \<le> \<bar>hsl_l dec - hsl_l base\<bar> \<and> \<bar>hsl_l dec - hsl_l base\<bar> \<le> 20"
    unfolding d clamp_def using sh by auto
  have b: "12 \<le> \<bar>hsl_l dec - hsl_l base\<bar> \<or> hsl_l dec = 5 \<or> hsl_l dec = 95"
    unfolding d clamp_def using sh by auto
  from f(1) f(3) f(4) [folded d] d sh a b show ?thesis by blast
qed

theorem generateVariantFromHex_bounds_witness:
  "isHexShape ''#5468ff''
    \<and> rnd 0 = 0 \<and> (0::rat) \<le> 0 \<and> (0::rat) < 1
    \<and> 17 \<le> hsl_l (hexToHsl ''#5468ff'') \<and> hsl_l (hexToHsl ''#5468ff'') \<le> 83
    \<and> isHexShape (generateVariantFromHex ''#5468ff'' (3 / 4) 0 (3 / 4) (1 / 2))
    \<and> 9 \<le> hsl_s (hexToHsl (generateVariantFromHex ''#5468ff'' (3 / 4) 0 (3 / 4) (1 / 2)))
    \<and> hsl_s (hexToHsl (generateVariantFromHex ''#5468ff'' (3 / 4) 0 (3 / 4) (1 / 2))) \<le> 96
    \<and> hsl_l (hexToHsl (generateVariantFromHex ''#5468ff'' (3 / 4) 0 (3 / 4) (1 / 2))) = 78
    \<and> 12 \<le> \<bar>hsl_l (hexToHsl (generateVariantFromHex ''#5468ff'' (3 / 4) 0 (3 / 4) (1 / 2)))
              - hsl_l (hexToHsl ''#5468ff'')\<bar>"
proof -
  have a: "isHexShape ''#5468ff''"
    by (simp add: shape_eval)
  have u: "rnd 0 = 0" "(0::rat) \<le> 0" "(0::rat) < 1"
    by (simp_all add: rnd_zero)
  have b: "17 \<le> hsl_l (hexToHsl ''#5468ff'')" "hsl_l (hexToHsl ''#5468ff'') \<le> 83"
    by (simp_all add: hsl_5468ff)
  have n: "clamp (hsl_l (hexToHsl ''#5468ff'') + lightShiftOf (3 / 4) 0) 5 95 = 78"
    by (simp add: hsl_5468ff shift_up clamp_def)
  note t = generateVariantFromHex_bounds [OF a u, of "3 / 4" "3 / 4" "1 / 2", unfolded n]
  from t b have "isHexShape (generateVariantFromHex ''#5468ff'' (3 / 4) 0 (3 / 4) (1 / 2))"
    and "9 \<le> hsl_s (hexToHsl (generateVariantFromHex ''#5468ff'' (3 / 4) 0 (3 / 4) (1 / 2)))"
    and "hsl_s (hexToHsl (generateVariantFromHex ''#5468ff'' (3 / 4) 0 (3 / 4) (1 / 2))) \<le> 96"
    and "hsl_l (hexToHsl (generateVariantFromHex ''#5468ff'' (3 / 4) 0 (3 / 4) (1 / 2))) = 78"
    and "12 \<le> \<bar>hsl_l (hexToHsl (generateVariantFromHex ''#5468ff'' (3 / 4) 0 (3 / 4) (1 / 2)))
              - hsl_l (hexToHsl ''#5468ff'')\<bar>"
    by blast+
  with a u b show ?thesis by blast
qed

subsection \<open>From a hex colour to hue, saturation and lightness and back\<close>

text \<open>
  The exact channel formula at the rounded components, next to the one at the exact
  components: rounding the hue to a degree and saturation and lightness to a percent moves
  a channel by at most \<open>1/48\<close>, and the binary64 error of \<^verbatim>\<open>hexToHsl\<close> adds \<open>10\<^sup>-\<^sup>6/24\<close>.
\<close>

lemma channel_error:
  fixes h s l n :: rat and H S L :: int
  assumes "0 \<le> h" "h < 1" "0 \<le> s" "s \<le> 1" "0 \<le> l" "l \<le> 1"
    and H: "\<bar>of_int H - h * 360\<bar> \<le> 1 / 2 + 1 / 1000000" "0 \<le> H" "H \<le> 360"
    and S: "\<bar>of_int S - s * 100\<bar> \<le> 1 / 2 + 1 / 1000000" "0 \<le> S" "S \<le> 100"
    and L: "\<bar>of_int L - l * 100\<bar> \<le> 1 / 2 + 1 / 1000000" "0 \<le> L" "L \<le> 100"
    and n: "0 \<le> n" "n \<le> 8"
  shows "\<bar>hslColorExact (of_int H) (of_int L / 100)
            ((of_int S * min (of_int L / 100) (1 - of_int L / 100)) / 100) n
          - (l - (s * min l (1 - l)) * waveExact (js_rem (n + 12 * h) 12))\<bar>
          \<le> 1 / 48 + 1 / 24000000"
proof -
  define l' :: rat where "l' = of_int L / 100"
  define s' :: rat where "s' = of_int S / 100"
  define m' where "m' = min l' (1 - l')"
  define m where "m = min l (1 - l)"
  define w' where "w' = waveExact (js_rem (n + of_int H / 30) 12)"
  define w where "w = waveExact (js_rem (n + 12 * h) 12)"
  have dl: "\<bar>l' - l\<bar> \<le> 1 / 200 + 1 / 100000000"
    using L(1) by (simp add: l'_def field_simps abs_le_iff)
  have ds: "\<bar>s' - s\<bar> \<le> 1 / 200 + 1 / 100000000"
    using S(1) by (simp add: s'_def field_simps abs_le_iff)
  have lr: "0 \<le> l'" "l' \<le> 1" using L(2,3) by (simp_all add: l'_def)
  have m'r: "\<bar>m'\<bar> \<le> 1 / 2" using lr unfolding m'_def min_def by (simp split: if_splits)
  have mr: "0 \<le> m" "m \<le> 1 / 2" using assms(5,6) unfolding m_def min_def by (simp_all split: if_splits)
  have dm: "\<bar>m' - m\<bar> \<le> 1 / 200 + 1 / 100000000" unfolding m'_def m_def by (rule min_perturb [OF dl])
  have sa: "\<bar>s\<bar> \<le> 1" using assms(3,4) by simp
  have da: "\<bar>s' * m' - s * m\<bar> \<le> (1 / 200 + 1 / 100000000) * (1 / 2) + 1 * (1 / 200 + 1 / 100000000)"
    by (rule product_perturb [OF ds dm m'r sa])
  have "0 \<le> s * m" using assms(3) mr by simp
  moreover have "s * m \<le> 1 * (1 / 2)" using assms(3,4) mr by (intro mult_mono) simp_all
  ultimately have aa: "\<bar>s * m\<bar> \<le> 1 / 2" by simp
  have xr: "0 \<le> n + of_int H / 30" "n + of_int H / 30 < 24" using n H(2,3) by simp_all
  have yr: "0 \<le> n + 12 * h" "n + 12 * h < 24" using n assms(1,2) by simp_all
  have "\<bar>w' - w\<bar> \<le> \<bar>(n + of_int H / 30) - (n + 12 * h)\<bar>"
    unfolding w'_def w_def by (rule waveExact_rem_lipschitz [OF xr yr])
  also have "\<dots> \<le> 1 / 60 + 1 / 30000000" using H(1) by (simp add: field_simps abs_le_iff)
  finally have dw: "\<bar>w' - w\<bar> \<le> 1 / 60 + 1 / 30000000" .
  have w'r: "\<bar>w'\<bar> \<le> 1"
    using waveExact_range [of "js_rem (n + of_int H / 30) 12"] by (simp add: w'_def abs_le_iff)
  have daw: "\<bar>(s' * m') * w' - (s * m) * w\<bar>
      \<le> ((1 / 200 + 1 / 100000000) * (1 / 2) + 1 * (1 / 200 + 1 / 100000000)) * 1
        + 1 / 2 * (1 / 60 + 1 / 30000000)"
    by (rule product_perturb [OF da dw w'r aa])
  have e: "hslColorExact (of_int H) (of_int L / 100)
        ((of_int S * min (of_int L / 100) (1 - of_int L / 100)) / 100) n
      = l' - (s' * m') * w'"
    by (simp add: hslColorExact_def Let_def l'_def s'_def m'_def w'_def)
  have "\<bar>(l' - (s' * m') * w') - (l - (s * m) * w)\<bar> \<le> \<bar>l' - l\<bar> + \<bar>(s' * m') * w' - (s * m) * w\<bar>"
    by linarith
  also have "\<dots> \<le> (1 / 200 + 1 / 100000000)
      + (((1 / 200 + 1 / 100000000) * (1 / 2) + 1 * (1 / 200 + 1 / 100000000)) * 1
        + 1 / 2 * (1 / 60 + 1 / 30000000))"
    by (intro add_mono dl daw)
  also have "\<dots> = 1 / 48 + 1 / 24000000" by simp
  finally show ?thesis unfolding e m_def w_def .
qed

lemma byte_error:
  fixes color :: rat and y b :: int
  assumes "\<bar>of_int y - 255 * color\<bar> \<le> 1 / 2 + 2 / 100000000"
    and "\<bar>color - of_int b / 255\<bar> \<le> 1 / 48 + 1 / 24000000"
  shows "\<bar>y - b\<bar> \<le> 5"
proof -
  define rb :: rat where "rb = of_int b / 255"
  have rb: "of_int b = 255 * rb" unfolding rb_def by simp
  have "\<bar>color - rb\<bar> \<le> 1 / 48 + 1 / 24000000" using assms(2) unfolding rb_def .
  with assms(1) have "\<bar>(of_int y :: rat) - of_int b\<bar> < 6" unfolding rb by linarith
  then have "\<bar>(of_int (y - b) :: rat)\<bar> < of_int 6"
    by simp
  then have "\<bar>y - b\<bar> < 6"
    by (simp only: of_int_abs [symmetric] of_int_less_iff)
  then show ?thesis by simp
qed

lemma roundTrip_bytes:
  fixes hex :: string
  defines "c \<equiv> hexToRgb hex" and "x \<equiv> hexToHsl hex"
  shows "hexToRgb (roundTrip hex)
      = \<lparr>rgb_r = hslByte (of_int (hsl_h x)) (of_int (hsl_s x)) (of_int (hsl_l x)) 0,
         rgb_g = hslByte (of_int (hsl_h x)) (of_int (hsl_s x)) (of_int (hsl_l x)) 8,
         rgb_b = hslByte (of_int (hsl_h x)) (of_int (hsl_s x)) (of_int (hsl_l x)) 4\<rparr>"
    and "isHexShape (roundTrip hex)"
    and "\<bar>hslByte (of_int (hsl_h x)) (of_int (hsl_s x)) (of_int (hsl_l x)) 0 - rgb_r c\<bar> \<le> 5"
    and "\<bar>hslByte (of_int (hsl_h x)) (of_int (hsl_s x)) (of_int (hsl_l x)) 8 - rgb_g c\<bar> \<le> 5"
    and "\<bar>hslByte (of_int (hsl_h x)) (of_int (hsl_s x)) (of_int (hsl_l x)) 4 - rgb_b c\<bar> \<le> 5"
proof -
  obtain H S L where raw: "rgbToHslRaw (hexToRgb hex) = (H, S, L)"
    by (cases "rgbToHslRaw (hexToRgb hex)") blast
  obtain h s l where f: "rgbToHslExact (hexToRgb hex) = (h, s, l)"
    by (cases "rgbToHslExact (hexToRgb hex)") blast
  note r = hexToRgb_range [of hex]
  note t = hexToHsl_raw [OF raw f, folded x_def]
  have Hr: "0 \<le> hsl_h x" "hsl_h x \<le> 360" and Sr: "0 \<le> hsl_s x" "hsl_s x \<le> 100"
    and Lr: "0 \<le> hsl_l x" "hsl_l x \<le> 100"
    and hr: "0 \<le> h" "h < 1" and sr: "0 \<le> s" "s \<le> 1" and lr: "0 \<le> l" "l \<le> 1"
    using t by blast+
  have "\<bar>of_int (hsl_h x) - H\<bar> \<le> 1 / 2" "\<bar>H - h * 360\<bar> \<le> 1 / 1000000" using t by blast+
  then have Hn: "\<bar>of_int (hsl_h x) - h * 360\<bar> \<le> 1 / 2 + 1 / 1000000" by linarith
  have "\<bar>of_int (hsl_s x) - S\<bar> \<le> 1 / 2" "\<bar>S - s * 100\<bar> \<le> 1 / 1000000" using t by blast+
  then have Sn: "\<bar>of_int (hsl_s x) - s * 100\<bar> \<le> 1 / 2 + 1 / 1000000" by linarith
  have "\<bar>of_int (hsl_l x) - L\<bar> \<le> 1 / 2" "\<bar>L - l * 100\<bar> \<le> 1 / 1000000" using t by blast+
  then have Ln: "\<bar>of_int (hsl_l x) - l * 100\<bar> \<le> 1 / 2 + 1 / 1000000" by linarith
  have hq: "(0::rat) \<le> of_int (hsl_h x)" "(of_int (hsl_h x) :: rat) \<le> 360"
    and sq: "(0::rat) \<le> of_int (hsl_s x)" "(of_int (hsl_s x) :: rat) \<le> 100"
    and lq: "(0::rat) \<le> of_int (hsl_l x)" "(of_int (hsl_l x) :: rat) \<le> 100"
    using Hr Sr Lr by simp_all
  have rt: "roundTrip hex = hslToHex (of_int (hsl_h x)) (of_int (hsl_s x)) (of_int (hsl_l x))"
    by (simp add: roundTrip_def x_def Let_def)
  show "hexToRgb (roundTrip hex)
      = \<lparr>rgb_r = hslByte (of_int (hsl_h x)) (of_int (hsl_s x)) (of_int (hsl_l x)) 0,
         rgb_g = hslByte (of_int (hsl_h x)) (of_int (hsl_s x)) (of_int (hsl_l x)) 8,
         rgb_b = hslByte (of_int (hsl_h x)) (of_int (hsl_s x)) (of_int (hsl_l x)) 4\<rparr>"
    unfolding rt by (rule hexToRgb_hslToHex [OF sq lq])
  show "isHexShape (roundTrip hex)"
    unfolding rt by (rule hslToHex_shape [OF sq lq])
  have rq: "0 \<le> rgb_r (hexToRgb hex)" "rgb_r (hexToRgb hex) \<le> 255"
    "0 \<le> rgb_g (hexToRgb hex)" "rgb_g (hexToRgb hex) \<le> 255"
    "0 \<le> rgb_b (hexToRgb hex)" "rgb_b (hexToRgb hex) \<le> 255"
    using r by simp_all
  note ex = hsl_exact [OF rq f]
  have n0: "(0::rat) \<le> 0" "(0::rat) \<le> 8" and n8: "(0::rat) \<le> 8" "(8::rat) \<le> 8"
    and n4: "(0::rat) \<le> 4" "(4::rat) \<le> 8"
    by simp_all
  note ce = channel_error [OF hr sr lr Hn Hr Sn Sr Ln Lr]
  note be = hslByte_near_exact [OF hq sq lq]
  show "\<bar>hslByte (of_int (hsl_h x)) (of_int (hsl_s x)) (of_int (hsl_l x)) 0 - rgb_r c\<bar> \<le> 5"
    unfolding c_def by (rule byte_error [OF be [OF n0] ce [OF n0, unfolded ex(1)]])
  show "\<bar>hslByte (of_int (hsl_h x)) (of_int (hsl_s x)) (of_int (hsl_l x)) 8 - rgb_g c\<bar> \<le> 5"
    unfolding c_def by (rule byte_error [OF be [OF n8] ce [OF n8, unfolded ex(2)]])
  show "\<bar>hslByte (of_int (hsl_h x)) (of_int (hsl_s x)) (of_int (hsl_l x)) 4 - rgb_b c\<bar> \<le> 5"
    unfolding c_def by (rule byte_error [OF be [OF n4] ce [OF n4, unfolded ex(3)]])
qed

text \<open>
  Claim C1, amended: for every valid hex colour, converting it with \<^verbatim>\<open>hexToHsl\<close> and back
  with \<^verbatim>\<open>hslToHex\<close> yields a valid hex colour whose three decoded bytes each differ from
  the original ones by at most 5.
\<close>

theorem roundTrip_within_5:
  assumes "isHexShape hex"
  shows "isHexShape (roundTrip hex)
    \<and> \<bar>rgb_r (hexToRgb (roundTrip hex)) - rgb_r (hexToRgb hex)\<bar> \<le> 5
    \<and> \<bar>rgb_g (hexToRgb (roundTrip hex)) - rgb_g (hexToRgb hex)\<bar> \<le> 5
    \<and> \<bar>rgb_b (hexToRgb (roundTrip hex)) - rgb_b (hexToRgb hex)\<bar> \<le> 5"
  using roundTrip_bytes(2-5) [of hex] by (simp add: roundTrip_bytes(1))

lemma rgb_03e4ea: "hexToRgb ''#03e4ea'' = \<lparr>rgb_r = 3, rgb_g = 228, rgb_b = 234\<rparr>"
  by (simp add: rgb_eval)

lemma raw_03e4ea:
  "(case rgbToHslRaw \<lparr>rgb_r = 3, rgb_g = 228, rgb_b = 234\<rparr> of
      (h, s, l) \<Rightarrow> (Math_round h, Math_round s, Math_round l)) = (182, 97, 46)"
  by code_simp

lemma hsl_03e4ea: "hexToHsl ''#03e4ea'' = \<lparr>hsl_h = 182, hsl_s = 97, hsl_l = 46\<rparr>"
  using raw_03e4ea unfolding hexToHsl_def rgb_03e4ea by (simp split: prod.splits)

lemma bytes_182_97_46: "hslByte 182 97 46 0 = 4" "hslByte 182 97 46 8 = 223" "hslByte 182 97 46 4 = 231"
  by code_simp+

lemma rgb_roundTrip_03e4ea:
  "hexToRgb (roundTrip ''#03e4ea'') = \<lparr>rgb_r = 4, rgb_g = 223, rgb_b = 231\<rparr>"
  by (simp add: roundTrip_bytes(1) hsl_03e4ea bytes_182_97_46)

text \<open>
  Claim C1, as stated, fails: \<^verbatim>\<open>#03e4ea\<close> becomes hue 182, saturation 97, lightness 46,
  and these give back \<^verbatim>\<open>#04dfe7\<close>, whose green byte is 223 instead of 228: a difference
  of 5, the largest that the bound above allows.
\<close>

theorem roundTrip_counterexample:
  "isHexShape ''#03e4ea'' \<and> roundTrip ''#03e4ea'' \<noteq> ''#03e4ea''
   \<and> \<not> \<bar>rgb_g (hexToRgb (roundTrip ''#03e4ea'')) - rgb_g (hexToRgb ''#03e4ea'')\<bar> \<le> 1
   \<and> \<bar>rgb_g (hexToRgb (roundTrip ''#03e4ea'')) - rgb_g (hexToRgb ''#03e4ea'')\<bar> = 5"
proof -
  have "roundTrip ''#03e4ea'' \<noteq> ''#03e4ea''"
    using rgb_roundTrip_03e4ea rgb_03e4ea by (auto dest: arg_cong [where f = "\<lambda>s. rgb_r (hexToRgb s)"])
  then show ?thesis
    by (simp add: rgb_roundTrip_03e4ea rgb_03e4ea shape_eval)
qed

theorem roundTrip_within_5_witness:
  "isHexShape ''#03e4ea'' \<and> isHexShape (roundTrip ''#03e4ea'')
    \<and> \<bar>rgb_r (hexToRgb (roundTrip ''#03e4ea'')) - 3\<bar> \<le> 5
    \<and> \<bar>rgb_g (hexToRgb (roundTrip ''#03e4ea'')) - 228\<bar> \<le> 5
    \<and> \<bar>rgb_b (hexToRgb (roundTrip ''#03e4ea'')) - 234\<bar> \<le> 5"
proof -
  have a: "isHexShape ''#03e4ea''"
    by (simp add: shape_eval)
  from roundTrip_within_5 [OF a] a show ?thesis
    by (simp add: rgb_03e4ea)
qed

end
